theory Spec2Isabelle
  imports Main "HOL-Library.Word" "HOL-Library.Log_Nat"
begin

unbundle bit_operations_syntax

section \<open>Errors and assertions (except.h)\<close>

text \<open>
  \<open>throwLogicError\<close> and \<open>throwRuntimeError\<close> raise the two exception classes of
  \<open>except.h\<close>. A function of the model that can raise returns \<open>error + 'a\<close>, with
  \<open>Inl\<close> for the exception. \<open>UndefinedBehaviour\<close> marks the places where the source
  does what C++ leaves undefined (a \<open>std::string\<close> built from a null pointer, a double
  converted to an integer type that cannot hold it).
\<close>

datatype error = LogicError | RuntimeError | UndefinedBehaviour

text \<open>
  \<open>JSON_ASSERT(condition)\<close> and \<open>JSON_ASSERT_MESSAGE(condition, message)\<close>: a logic
  error when the condition is false.
\<close>

definition JSON_ASSERT :: "bool \<Rightarrow> error + unit" where
  "JSON_ASSERT condition = (if \<not> condition then Inl LogicError else Inr ())"

section \<open>Integers to text (utils.cc)\<close>

type_synonym int64_t = "64 word"
type_synonym uint64_t = "64 word"
type_synonym int32_t = "32 word"
type_synonym uint32_t = "32 word"

text \<open>
  The limits of \<open>class Value\<close> (value.h):
  \<open>minInt64 = int64_t(~(uint64_t(-1) / 2))\<close>, \<open>maxInt64 = int64_t(uint64_t(-1) / 2)\<close>,
  \<open>minInt = int32_t(~(uint32_t(-1) / 2))\<close>, \<open>maxInt = int32_t(uint32_t(-1) / 2)\<close>.
  Division on words is the unsigned one.
\<close>

definition minInt64 :: int64_t where
  "minInt64 = NOT ((- 1) div 2)"

definition maxInt64 :: int64_t where
  "maxInt64 = (- 1) div 2"

definition minInt :: int32_t where
  "minInt = NOT ((- 1) div 2)"

definition maxInt :: int32_t where
  "maxInt = (- 1) div 2"

text \<open>
  The stack buffer \<open>char buffer[3 * 64 / 8 + 1]\<close> is written back to front through
  \<open>char*& current\<close>. The model keeps the offset of \<open>current\<close> from the start of the
  buffer and the bytes of the buffer from \<open>current\<close> to its end; \<open>*--current = c\<close> is
  \<open>put c\<close>.
\<close>

type_synonym cursor = "int \<times> string"

definition buffer_size :: int where
  "buffer_size = 3 * 64 div 8 + 1"

definition put :: "char \<Rightarrow> cursor \<Rightarrow> cursor" where
  "put c cur = (fst cur - 1, c # snd cur)"

text \<open>The \<open>do ... while (value != 0)\<close> loop of \<open>uintToString\<close>.\<close>

function uintToString_loop :: "uint64_t \<Rightarrow> cursor \<Rightarrow> cursor" where
  "uintToString_loop v cur =
     (let cur' = put (char_of (unat (v mod 10) + of_char CHR ''0'')) cur;
          v' = v div 10
      in if v' \<noteq> 0 then uintToString_loop v' cur' else cur')"
  by pat_completeness auto
termination
proof (relation "measure (\<lambda>(v, cur). unat v)")
  show "wf (measure (\<lambda>(v, cur). unat v))" by simp
next
  fix v :: uint64_t and cur cur' :: cursor and v' :: uint64_t
  assume "v' = v div 10" and "v' \<noteq> 0"
  have "unat v' \<noteq> 0"
    using \<open>v' \<noteq> 0\<close> by (simp only: unat_eq_zero not_False_eq_True)
  moreover have "unat v' = unat v div 10"
    using \<open>v' = v div 10\<close> by (simp add: unat_div)
  ultimately have "unat v' < unat v" by simp
  then show "((v', cur'), (v, cur)) \<in> measure (\<lambda>(v, cur). unat v)"
    by simp
qed

declare uintToString_loop.simps [simp del]

definition uintToString :: "uint64_t \<Rightarrow> cursor \<Rightarrow> cursor" where
  "uintToString v cur = uintToString_loop v (put (CHR 0x00) cur)"

text \<open>
  \<open>return current\<close> builds the \<open>std::string\<close> from the bytes at \<open>current\<close> up to the
  first zero byte.
\<close>

definition c_str_at :: "cursor \<Rightarrow> string" where
  "c_str_at cur = takeWhile (\<lambda>c. c \<noteq> CHR 0x00) (snd cur)"

definition valueToString_int64 :: "int64_t \<Rightarrow> error + string" where
  "valueToString_int64 v =
     (let start = (buffer_size, []);
          cur = (if v = minInt64 then put (CHR ''-'') (uintToString (maxInt64 + 1) start)
                 else if v <s 0 then put (CHR ''-'') (uintToString (- v) start)
                 else uintToString v start)
      in case JSON_ASSERT (fst cur \<ge> 0) of
           Inl e \<Rightarrow> Inl e
         | Inr _ \<Rightarrow> Inr (c_str_at cur))"

definition valueToString_uint64 :: "uint64_t \<Rightarrow> error + string" where
  "valueToString_uint64 v =
     (let cur = uintToString v (buffer_size, [])
      in case JSON_ASSERT (fst cur \<ge> 0) of
           Inl e \<Rightarrow> Inl e
         | Inr _ \<Rightarrow> Inr (c_str_at cur))"

definition valueToString_bool :: "bool \<Rightarrow> string" where
  "valueToString_bool v = (if v then ''true'' else ''false'')"

text \<open>What a string of decimal digits denotes.\<close>

definition is_digit :: "char \<Rightarrow> bool" where
  "is_digit c = (48 \<le> (of_char c :: nat) \<and> (of_char c :: nat) \<le> 57)"

definition decimal_value :: "string \<Rightarrow> nat" where
  "decimal_value ds = foldl (\<lambda>a c. 10 * a + (of_char c - 48)) 0 ds"


section \<open>Doubles\<close>

text \<open>
  \<open>double\<close> is IEEE 754 binary64. A finite double is a sign, a significand \<open>m\<close> and an
  exponent \<open>e\<close> and denotes \<open>(-1)\<^sup>s * m * 2\<^sup>e\<close> (for a double of the machine
  \<open>m < 2\<^sup>5\<^sup>3\<close> and \<open>-1074 \<le> e \<le> 971\<close>); the two zeros are \<open>Finite s 0 e\<close>. Every
  operation below depends on the denoted number and the sign only, not on which pair
  \<open>(m, e)\<close> denotes it.
\<close>

datatype double = Finite (sign: bool) (mant: nat) (expo: int) | Infinity bool | NaN

definition isfinite :: "double \<Rightarrow> bool" where
  "isfinite d = (case d of Finite s m e \<Rightarrow> True | _ \<Rightarrow> False)"

definition isnan :: "double \<Rightarrow> bool" where
  "isnan d = (case d of NaN \<Rightarrow> True | _ \<Rightarrow> False)"

text \<open>
  The number a finite double denotes, as an integer multiple of \<open>2\<^sup>b\<close> for a common
  exponent \<open>b \<le> e\<close>.
\<close>

definition scaled :: "bool \<Rightarrow> nat \<Rightarrow> int \<Rightarrow> int \<Rightarrow> int" where
  "scaled s m e b = (if s then - 1 else 1) * int m * 2 ^ nat (e - b)"

text \<open>The comparisons \<open><\<close>, \<open><=\<close> and \<open>==\<close> of IEEE 754: false when an operand is a NaN.\<close>

fun d_less :: "double \<Rightarrow> double \<Rightarrow> bool" where
  "d_less (Finite s m e) (Finite t n f) =
     (scaled s m e (min e f) < scaled t n f (min e f))"
| "d_less (Finite s m e) (Infinity t) = (\<not> t)"
| "d_less (Infinity s) (Finite t n f) = s"
| "d_less (Infinity s) (Infinity t) = (s \<and> \<not> t)"
| "d_less NaN _ = False"
| "d_less _ NaN = False"

fun d_eq :: "double \<Rightarrow> double \<Rightarrow> bool" where
  "d_eq (Finite s m e) (Finite t n f) =
     (scaled s m e (min e f) = scaled t n f (min e f))"
| "d_eq (Infinity s) (Infinity t) = (s = t)"
| "d_eq _ _ = False"

definition d_le :: "double \<Rightarrow> double \<Rightarrow> bool" where
  "d_le a b = (d_less a b \<or> d_eq a b)"

definition d_ge :: "double \<Rightarrow> double \<Rightarrow> bool" where
  "d_ge a b = d_le b a"

text \<open>
  Rounding to nearest, ties to even, of \<open>(-1)\<^sup>s * m * 2\<^sup>e\<close> to a format of \<open>p\<close> bits of
  significand, least exponent \<open>emin\<close>, and overflow to infinity from \<open>2\<^sup>e\<^sup>m\<^sup>a\<^sup>x\<close> on:
  \<open>k\<close> low bits of the significand are dropped.
\<close>

definition overflow_to :: "int \<Rightarrow> bool \<Rightarrow> nat \<Rightarrow> int \<Rightarrow> double" where
  "overflow_to emax s m e =
     (if 0 \<le> e \<and> 2 ^ nat emax \<le> m * 2 ^ nat e then Infinity s else Finite s m e)"

definition round_to :: "nat \<Rightarrow> int \<Rightarrow> int \<Rightarrow> bool \<Rightarrow> nat \<Rightarrow> int \<Rightarrow> double" where
  "round_to p emin emax s m e =
     (let k = max (bitlen (int m) - int p) (emin - e)
      in if k \<le> 0 then overflow_to emax s m e
         else let q = m div 2 ^ nat k;
                  r = m mod 2 ^ nat k;
                  h = 2 ^ (nat k - 1);
                  q' = (if h < r \<or> (r = h \<and> odd q) then q + 1 else q)
              in overflow_to emax s q' (e + k))"

definition round_double :: "bool \<Rightarrow> nat \<Rightarrow> int \<Rightarrow> double" where
  "round_double s m e = round_to 53 (- 1074) 1024 s m e"

text \<open>\<open>static_cast<double>\<close> of an integer, and \<open>static_cast<float>\<close> of a double (read back as a double).\<close>

definition double_of_int :: "int \<Rightarrow> double" where
  "double_of_int i = round_double (i < 0) (nat \<bar>i\<bar>) 0"

definition to_float :: "double \<Rightarrow> double" where
  "to_float d = (case d of Finite s m e \<Rightarrow> round_to 24 (- 149) 128 s m e | _ \<Rightarrow> d)"

text \<open>The product and the sum of two doubles.\<close>

fun d_mul :: "double \<Rightarrow> double \<Rightarrow> double" where
  "d_mul (Finite s m e) (Finite t n f) = round_double (s \<noteq> t) (m * n) (e + f)"
| "d_mul (Finite s m e) (Infinity t) = (if m = 0 then NaN else Infinity (s \<noteq> t))"
| "d_mul (Infinity s) (Finite t n f) = (if n = 0 then NaN else Infinity (s \<noteq> t))"
| "d_mul (Infinity s) (Infinity t) = Infinity (s \<noteq> t)"
| "d_mul NaN _ = NaN"
| "d_mul _ NaN = NaN"

fun d_add :: "double \<Rightarrow> double \<Rightarrow> double" where
  "d_add (Finite s m e) (Finite t n f) =
     (let b = min e f;
          x = scaled s m e b + scaled t n f b
      in round_double (if x = 0 then s \<and> t else x < 0) (nat \<bar>x\<bar>) b)"
| "d_add (Finite s m e) (Infinity t) = Infinity t"
| "d_add (Infinity s) (Finite t n f) = Infinity s"
| "d_add (Infinity s) (Infinity t) = (if s = t then Infinity s else NaN)"
| "d_add NaN _ = NaN"
| "d_add _ NaN = NaN"

text \<open>
  \<open>modf(d, &integral_part)\<close>: the fractional part (returned) and the integral part, both
  with the sign of \<open>d\<close>.
\<close>

definition modf :: "double \<Rightarrow> double \<times> double" where
  "modf d =
     (case d of
        Finite s m e \<Rightarrow>
          (if 0 \<le> e then (Finite s 0 0, Finite s m e)
           else (Finite s (m mod 2 ^ nat (- e)) e, Finite s (m div 2 ^ nat (- e)) 0))
      | Infinity s \<Rightarrow> (Finite s 0 0, Infinity s)
      | NaN \<Rightarrow> (NaN, NaN))"

text \<open>
  The conversion of a double to an integer type truncates towards zero; C++ leaves it
  undefined for a NaN, an infinity, and a value out of the range of the type.
\<close>

definition double_truncate :: "double \<Rightarrow> int option" where
  "double_truncate d =
     (case d of
        Finite s m e \<Rightarrow>
          Some ((if s then - 1 else 1) *
                (if 0 \<le> e then int m * 2 ^ nat e else int m div 2 ^ nat (- e)))
      | _ \<Rightarrow> None)"

definition int32_of_double :: "double \<Rightarrow> int32_t option" where
  "int32_of_double d =
     (case double_truncate d of
        Some i \<Rightarrow> if - (2 ^ 31) \<le> i \<and> i < 2 ^ 31 then Some (word_of_int i) else None
      | None \<Rightarrow> None)"


section \<open>String buffers (value.cc)\<close>

text \<open>
  A \<open>char*\<close> is \<open>None\<close> for the null pointer and otherwise the bytes of the memory it
  points to. \<open>new char[n]\<close> never returns a null pointer (it throws \<open>std::bad_alloc\<close>,
  which is outside the model); a fresh array is modelled as zero bytes.
\<close>

type_synonym char_ptr = "string option"

definition new_char_array :: "nat \<Rightarrow> char_ptr" where
  "new_char_array n = Some (replicate n (CHR 0x00))"

text \<open>\<open>memcpy(dst, src, n)\<close> on the bytes of \<open>dst\<close>, and \<open>strlen\<close>.\<close>

definition memcpy :: "string \<Rightarrow> string \<Rightarrow> nat \<Rightarrow> string" where
  "memcpy dst src n = take n src @ drop (length (take n src)) dst"

definition strlen :: "string \<Rightarrow> nat" where
  "strlen str = length (takeWhile (\<lambda>c. c \<noteq> CHR 0x00) str)"

text \<open>
  \<open>memcmp(a, b, n)\<close> compares at most \<open>n\<close> bytes as unsigned chars; only the sign of
  its result is used. Where a buffer of the model holds fewer than \<open>n\<close> bytes the
  comparison stops.
\<close>

fun memcmp :: "string \<Rightarrow> string \<Rightarrow> nat \<Rightarrow> int" where
  "memcmp (x # xs) (y # ys) (Suc n) =
     (if (of_char x :: nat) < of_char y then - 1
      else if (of_char y :: nat) < of_char x then 1
      else memcmp xs ys n)"
| "memcmp _ _ _ = 0"

text \<open>
  \<open>sizeof(unsigned)\<close> is 4; an \<open>unsigned\<close> is stored in memory least significant byte
  first.
\<close>

definition sizeof_unsigned :: nat where
  "sizeof_unsigned = 4"

definition store_unsigned :: "uint32_t \<Rightarrow> string" where
  "store_unsigned w = map (\<lambda>i. char_of (unat (drop_bit (8 * i) w))) [0 ..< sizeof_unsigned]"

definition load_unsigned :: "string \<Rightarrow> uint32_t" where
  "load_unsigned mem =
     foldr (\<lambda>c w. of_char c OR push_bit 8 w) (take sizeof_unsigned mem) 0"

text \<open>\<open>duplicateStringValue(value, length)\<close>; \<open>length\<close> is a \<open>size_t\<close>.\<close>

definition duplicateStringValue :: "string \<Rightarrow> nat \<Rightarrow> error + string" where
  "duplicateStringValue val len =
     (let len = (if len \<ge> unat maxInt then unat maxInt - 1 else len)
      in case new_char_array (len + 1) of
           None \<Rightarrow> Inl RuntimeError
         | Some newString \<Rightarrow> Inr ((memcpy newString val len)[len := CHR 0x00]))"

text \<open>\<open>duplicateAndPrefixStringValue(value, length)\<close>; \<open>length\<close> is an \<open>unsigned int\<close>.\<close>

definition duplicateAndPrefixStringValue :: "string \<Rightarrow> uint32_t \<Rightarrow> error + string" where
  "duplicateAndPrefixStringValue val len =
     (case JSON_ASSERT (unat len \<le> unat maxInt - sizeof_unsigned - 1) of
        Inl e \<Rightarrow> Inl e
      | Inr _ \<Rightarrow>
          (let actualLength = sizeof_unsigned + unat len + 1
           in case new_char_array actualLength of
                None \<Rightarrow> Inl RuntimeError
              | Some newString \<Rightarrow>
                  Inr ((store_unsigned len
                        @ memcpy (drop sizeof_unsigned newString) val (unat len))
                       [actualLength - 1 := CHR 0x00])))"

text \<open>
  \<open>decodePrefixedString(isPrefixed, prefixed, &length, &value)\<close> returns the two
  out-parameters.
\<close>

definition decodePrefixedString :: "bool \<Rightarrow> string \<Rightarrow> uint32_t \<times> string" where
  "decodePrefixedString isPrefixed prefixed =
     (if \<not> isPrefixed then (of_nat (strlen prefixed), prefixed)
      else (load_unsigned prefixed, drop sizeof_unsigned prefixed))"

section \<open>Keys: \<open>Value::CZString\<close>\<close>

datatype DuplicationPolicy = noDuplication | duplicate | duplicateOnCopy

fun policy_bits :: "DuplicationPolicy \<Rightarrow> uint32_t" where
  "policy_bits noDuplication = 0"
| "policy_bits duplicate = 1"
| "policy_bits duplicateOnCopy = 2"

text \<open>
  A key holds \<open>m_cstr\<close> and an anonymous union of \<open>uint32_t m_index\<close> and
  \<open>struct StringStorage { unsigned policy : 2; unsigned length : 30; }\<close>. The union is
  one 32-bit word: \<open>m_index\<close> is the word, \<open>policy\<close> its two low bits and \<open>length\<close> the
  thirty bits above them.
\<close>

record CZString =
  m_cstr :: char_ptr
  m_index :: uint32_t

definition storage_policy :: "CZString \<Rightarrow> uint32_t" where
  "storage_policy k = m_index k AND 3"

definition storage_length :: "CZString \<Rightarrow> uint32_t" where
  "storage_length k = drop_bit 2 (m_index k)"

definition set_storage_policy :: "uint32_t \<Rightarrow> CZString \<Rightarrow> CZString" where
  "set_storage_policy v k = k\<lparr>m_index := (m_index k AND NOT 3) OR (v AND 3)\<rparr>"

definition set_storage_length :: "uint32_t \<Rightarrow> CZString \<Rightarrow> CZString" where
  "set_storage_length v k = k\<lparr>m_index := (m_index k AND 3) OR push_bit 2 v\<rparr>"

text \<open>\<open>CZString(uint32_t index)\<close> and \<open>CZString(char const* str, unsigned length, DuplicationPolicy allocate)\<close>.\<close>

definition CZString_index :: "uint32_t \<Rightarrow> CZString" where
  "CZString_index index = \<lparr>m_cstr = None, m_index = index\<rparr>"

definition CZString_str :: "char_ptr \<Rightarrow> uint32_t \<Rightarrow> DuplicationPolicy \<Rightarrow> CZString" where
  "CZString_str str len allocate =
     set_storage_length (len AND 0x3fffffff)
       (set_storage_policy (policy_bits allocate AND 0x3)
          \<lparr>m_cstr = str, m_index = 0\<rparr>)"

text \<open>The copy constructor \<open>CZString(CZString const& other)\<close>.\<close>

definition CZString_copy :: "CZString \<Rightarrow> error + CZString" where
  "CZString_copy other =
     (case (if storage_policy other \<noteq> policy_bits noDuplication \<and> m_cstr other \<noteq> None
            then map_sum id Some
                   (duplicateStringValue (the (m_cstr other)) (unat (storage_length other)))
            else Inr (m_cstr other)) of
        Inl e \<Rightarrow> Inl e
      | Inr cstr \<Rightarrow>
          Inr (set_storage_length (storage_length other)
                (set_storage_policy
                   (if m_cstr other \<noteq> None
                    then (if storage_policy other = policy_bits noDuplication
                          then policy_bits noDuplication AND 3
                          else policy_bits duplicate AND 3)
                    else storage_policy other AND 3)
                   \<lparr>m_cstr = cstr, m_index = 0\<rparr>)))"

text \<open>
  \<open>CZString::operator<\<close> and \<open>CZString::operator==\<close>. In \<open>operator<\<close> both branches
  of \<open>if (ret < 0) ... else ...\<close> return, so the statement
  \<open>return m_storage.length < other.m_storage.length;\<close> that follows them is never
  reached.
\<close>

definition CZString_less :: "CZString \<Rightarrow> CZString \<Rightarrow> error + bool" where
  "CZString_less this other =
     (case m_cstr this of
        None \<Rightarrow> Inr (m_index this < m_index other)
      | Some this_cstr \<Rightarrow>
          (let min_len = min (storage_length this) (storage_length other)
           in case m_cstr other of
                None \<Rightarrow> Inl LogicError
              | Some other_cstr \<Rightarrow>
                  (let ret = memcmp this_cstr other_cstr (unat min_len)
                   in if ret < 0 then Inr True else Inr False)))"

definition CZString_eq :: "CZString \<Rightarrow> CZString \<Rightarrow> error + bool" where
  "CZString_eq this other =
     (case m_cstr this of
        None \<Rightarrow> Inr (m_index this = m_index other)
      | Some this_cstr \<Rightarrow>
          if storage_length this \<noteq> storage_length other then Inr False
          else (case m_cstr other of
                  None \<Rightarrow> Inl LogicError
                | Some other_cstr \<Rightarrow>
                    (let ret = memcmp this_cstr other_cstr (unat (storage_length this))
                     in Inr (ret = 0))))"


section \<open>The value: \<open>class Value\<close>\<close>

datatype ValueType =
  nullValue | intValue | uintValue | realValue | stringValue | boolValue | arrayValue
  | objectValue

fun ordinal :: "ValueType \<Rightarrow> int" where
  "ordinal nullValue = 0"
| "ordinal intValue = 1"
| "ordinal uintValue = 2"
| "ordinal realValue = 3"
| "ordinal stringValue = 4"
| "ordinal boolValue = 5"
| "ordinal arrayValue = 6"
| "ordinal objectValue = 7"

text \<open>
  A \<open>Value\<close> holds the union \<open>m_value\<close>, the bit-field \<open>m_bits\<close> (\<open>value_type\<close> and
  \<open>allocated\<close>), the comments and the two offsets. The union and its tag
  \<open>m_bits.value_type\<close> are one datatype, \<open>ValueHolder\<close>: the constructor is the tag.
  \<open>ObjectValues\<close> is \<open>std::map<CZString, Value>\<close>, modelled by the list of its entries in
  the order of iteration. \<open>Comments\<close> is a \<open>unique_ptr\<close> to an array of three strings.
\<close>

datatype Value =
  Value (m_value: ValueHolder) (allocated: bool) (m_comments: "string list option")
    (m_start: int) (m_limit: int)
and ValueHolder =
    v_null
  | v_int int64_t
  | v_uint uint64_t
  | v_real double
  | v_string char_ptr
  | v_bool bool
  | v_array "(CZString \<times> Value) list"
  | v_object "(CZString \<times> Value) list"

type_synonym ObjectValues = "(CZString \<times> Value) list"

fun holder_type :: "ValueHolder \<Rightarrow> ValueType" where
  "holder_type v_null = nullValue"
| "holder_type (v_int i) = intValue"
| "holder_type (v_uint u) = uintValue"
| "holder_type (v_real d) = realValue"
| "holder_type (v_string p) = stringValue"
| "holder_type (v_bool b) = boolValue"
| "holder_type (v_array m) = arrayValue"
| "holder_type (v_object m) = objectValue"

text \<open>\<open>Value::type()\<close>.\<close>

definition type :: "Value \<Rightarrow> ValueType" where
  "type v = holder_type (m_value v)"


text \<open>
  \<open>Value::operator<\<close>. The map of an array or an object is compared by
  \<open>std::map\<close>'s \<open>operator<\<close>: \<open>std::lexicographical_compare\<close> over the entries
  (\<open>entries_less\<close>), each pair compared by \<open>std::pair\<close>'s \<open>operator<\<close> (\<open>pair_less\<close>),
  that is \<open>x.first < y.first || (!(y.first < x.first) && x.second < y.second)\<close>.
  The switch reads the member of \<open>other\<close> that the equal type tags select. In the
  string case \<open>decodePrefixedString\<close> yields pointers into the two buffers, which are not
  null, so \<open>JSON_ASSERT(this_str && other_str)\<close> holds. The \<open>return false;\<close> after the
  switch is the last alternative of each inner case.
\<close>

function value_less :: "Value \<Rightarrow> Value \<Rightarrow> error + bool"
  and pair_less :: "CZString \<times> Value \<Rightarrow> CZString \<times> Value \<Rightarrow> error + bool"
  and entries_less :: "ObjectValues \<Rightarrow> ObjectValues \<Rightarrow> error + bool"
where
  "value_less this other =
     (let typeDelta = ordinal (type this) - ordinal (type other)
      in if typeDelta \<noteq> 0 then Inr (typeDelta < 0)
         else
           (case m_value this of
              v_null \<Rightarrow> Inr False
            | v_int i \<Rightarrow> (case m_value other of v_int j \<Rightarrow> Inr (i <s j) | _ \<Rightarrow> Inr False)
            | v_uint i \<Rightarrow> (case m_value other of v_uint j \<Rightarrow> Inr (i < j) | _ \<Rightarrow> Inr False)
            | v_real x \<Rightarrow> (case m_value other of v_real y \<Rightarrow> Inr (d_less x y) | _ \<Rightarrow> Inr False)
            | v_bool x \<Rightarrow> (case m_value other of v_bool y \<Rightarrow> Inr (x < y) | _ \<Rightarrow> Inr False)
            | v_string p \<Rightarrow>
                (case m_value other of
                   v_string q \<Rightarrow>
                     (case (p, q) of
                        (Some this_mem, Some other_mem) \<Rightarrow>
                          (let (this_len, this_str) = decodePrefixedString (allocated this) this_mem;
                               (other_len, other_str) = decodePrefixedString (allocated other) other_mem;
                               min_len = min this_len other_len;
                               comp = memcmp this_str other_str (unat min_len)
                           in if comp < 0 then Inr True
                              else if comp > 0 then Inr False
                              else Inr (this_len < other_len))
                      | _ \<Rightarrow> Inr (q \<noteq> None))
                 | _ \<Rightarrow> Inr False)
            | v_array m \<Rightarrow>
                (case m_value other of
                   v_array n \<Rightarrow>
                     if length m \<noteq> length n then Inr (length m < length n)
                     else entries_less m n
                 | _ \<Rightarrow> Inr False)
            | v_object m \<Rightarrow>
                (case m_value other of
                   v_object n \<Rightarrow>
                     if length m \<noteq> length n then Inr (length m < length n)
                     else entries_less m n
                 | _ \<Rightarrow> Inr False)))"
| "pair_less x y =
     (case CZString_less (fst x) (fst y) of
        Inl e \<Rightarrow> Inl e
      | Inr True \<Rightarrow> Inr True
      | Inr False \<Rightarrow>
          (case CZString_less (fst y) (fst x) of
             Inl e \<Rightarrow> Inl e
           | Inr True \<Rightarrow> Inr False
           | Inr False \<Rightarrow> value_less (snd x) (snd y)))"
| "entries_less [] ys = Inr (ys \<noteq> [])"
| "entries_less (x # xs) [] = Inr False"
| "entries_less (x # xs) (y # ys) =
     (case pair_less x y of
        Inl e \<Rightarrow> Inl e
      | Inr True \<Rightarrow> Inr True
      | Inr False \<Rightarrow>
          (case pair_less y x of
             Inl e \<Rightarrow> Inl e
           | Inr True \<Rightarrow> Inr False
           | Inr False \<Rightarrow> entries_less xs ys))"
  by pat_completeness auto
termination
proof (relation "measure (\<lambda>x. case x of
         Inl (a, b) \<Rightarrow> 2 * (size a + size b)
       | Inr (Inl (p, q)) \<Rightarrow> 2 * (size (snd p) + size (snd q)) + 1
       | Inr (Inr (xs, ys)) \<Rightarrow> 2 * (size_list (size_prod (\<lambda>k. 0) size) xs + size_list (size_prod (\<lambda>k. 0) size) ys) + 1)", goal_cases)
  case 1
  show ?case by simp
next
  case (2 this other typeDelta m n)
  then show ?case by (cases this; cases other) simp
next
  case (3 this other typeDelta m n)
  then show ?case by (cases this; cases other) simp
next
  case (4 x y)
  then show ?case by simp
next
  case (5 x xs y ys)
  then show ?case by (cases x; cases y) simp
next
  case (6 x xs y ys)
  then show ?case by (cases x; cases y) simp
next
  case (7 x xs y ys)
  then show ?case by simp
qed

declare value_less.simps [simp del]
declare pair_less.simps [simp del]

text \<open>\<open>Value::operator==\<close>.\<close>

definition value_eq :: "Value \<Rightarrow> Value \<Rightarrow> error + bool" where
  "value_eq this other =
     (if type this \<noteq> type other then Inr False
      else
        (case m_value this of
           v_null \<Rightarrow> Inr True
         | v_int i \<Rightarrow> (case m_value other of v_int j \<Rightarrow> Inr (i <s j) | _ \<Rightarrow> Inr False)
         | v_uint i \<Rightarrow> (case m_value other of v_uint j \<Rightarrow> Inr (i < j) | _ \<Rightarrow> Inr False)
         | v_real x \<Rightarrow> (case m_value other of v_real y \<Rightarrow> Inr (d_less x y) | _ \<Rightarrow> Inr False)
         | v_bool x \<Rightarrow> (case m_value other of v_bool y \<Rightarrow> Inr (x < y) | _ \<Rightarrow> Inr False)
         | v_string p \<Rightarrow>
             (case m_value other of
                v_string q \<Rightarrow>
                  (case (p, q) of
                     (Some this_mem, Some other_mem) \<Rightarrow>
                       (let (this_len, this_str) = decodePrefixedString (allocated this) this_mem;
                            (other_len, other_str) = decodePrefixedString (allocated other) other_mem;
                            min_len = min this_len other_len;
                            comp = memcmp this_str other_str (unat min_len)
                        in if comp < 0 then Inr True
                           else if comp > 0 then Inr False
                           else Inr (this_len < other_len))
                   | _ \<Rightarrow> Inr (q \<noteq> None))
              | _ \<Rightarrow> Inr False)
         | v_array m \<Rightarrow>
             (case m_value other of
                v_array n \<Rightarrow>
                  if length m \<noteq> length n then Inr (length m < length n)
                  else entries_less m n
              | _ \<Rightarrow> Inr False)
         | v_object m \<Rightarrow>
             (case m_value other of
                v_object n \<Rightarrow>
                  if length m \<noteq> length n then Inr (length m < length n)
                  else entries_less m n
              | _ \<Rightarrow> Inr False)))"


section \<open>Doubles to text (utils.h, utils.cc)\<close>

datatype PrecisionType = significantDigits | decimalPlaces

text \<open>\<open>fixNumericLocale(begin, end)\<close> rewrites the buffer in place and returns \<open>end\<close>.\<close>

definition fixNumericLocale :: "string \<Rightarrow> string" where
  "fixNumericLocale buffer = map (\<lambda>c. if c = CHR '','' then CHR ''.'' else c) buffer"

text \<open>
  \<open>fixZerosInTheEnd(begin, end, precision)\<close>: iterators are offsets into the buffer,
  \<open>begin\<close> is 0, and the result is the offset of the new end. The loop steps \<open>end\<close> down.
\<close>

fun fixZerosInTheEnd :: "string \<Rightarrow> nat \<Rightarrow> uint32_t \<Rightarrow> nat" where
  "fixZerosInTheEnd buffer 0 precision = 0"
| "fixZerosInTheEnd buffer (Suc e) precision =
     (if buffer ! e \<noteq> CHR ''0'' then Suc e
      else if 0 \<noteq> e \<and> 0 \<noteq> e - 1 \<and> buffer ! (e - 1) = CHR ''.''
           then (if precision \<noteq> 0 then Suc e else Suc e - 2)
           else fixZerosInTheEnd buffer e precision)"

text \<open>
  \<open>std::snprintf\<close> is the C library's. Its conversion \<open>"%.*f"\<close> is modelled as ISO C
  specifies it, correctly rounded (ties to even): a minus sign for a negative double, the
  digits of the integral part, and, unless the precision is zero, the decimal-point
  character \<open>radix\<close> of the locale and exactly \<open>precision\<close> digits; a negative precision
  argument counts as the default 6. The conversion \<open>"%.*g"\<close> is a parameter of the model
  (\<open>printf_g\<close>, applied to the precision argument and the double).
\<close>

definition digit_char :: "nat \<Rightarrow> char" where
  "digit_char n = char_of (n + of_char CHR ''0'')"

fun digits_of :: "nat \<Rightarrow> string" where
  "digits_of n = (if n < 10 then [digit_char n] else digits_of (n div 10) @ [digit_char (n mod 10)])"

declare digits_of.simps [simp del]

fun frac_digits :: "nat \<Rightarrow> nat \<Rightarrow> string" where
  "frac_digits 0 x = []"
| "frac_digits (Suc p) x = frac_digits p (x div 10) @ [digit_char (x mod 10)]"

definition round_half_even :: "nat \<Rightarrow> nat \<Rightarrow> nat" where
  "round_half_even a b =
     (let q = a div b; r = a mod b
      in if b < 2 * r \<or> (2 * r = b \<and> odd q) then q + 1 else q)"

definition fixed_scaled :: "nat \<Rightarrow> nat \<Rightarrow> int \<Rightarrow> nat" where
  "fixed_scaled p m e =
     (if 0 \<le> e then m * 2 ^ nat e * 10 ^ p else round_half_even (m * 10 ^ p) (2 ^ nat (- e)))"

definition printf_f :: "char \<Rightarrow> int \<Rightarrow> double \<Rightarrow> string" where
  "printf_f radix prec d =
     (case d of
        Finite s m e \<Rightarrow>
          (let p = (if prec < 0 then 6 else nat prec);
               n = fixed_scaled p m e
           in (if s then ''-'' else []) @ digits_of (n div 10 ^ p)
              @ (if p = 0 then [] else radix # frac_digits p (n mod 10 ^ p)))
      | Infinity s \<Rightarrow> (if s then ''-inf'' else ''inf'')
      | NaN \<Rightarrow> ''nan'')"

text \<open>
  \<open>snprintf(&*buffer.begin(), buffer.size(), ...)\<close> writes at most \<open>size - 1\<close> bytes of the
  text \<open>out\<close> and a zero byte, and returns the length of \<open>out\<close> as an \<open>int\<close>.
\<close>

definition snprintf_write :: "string \<Rightarrow> string \<Rightarrow> string" where
  "snprintf_write buffer out =
     (if buffer = [] then buffer
      else let k = min (length out) (length buffer - 1)
           in take k out @ CHR 0x00 # drop (k + 1) buffer)"

text \<open>
  An \<open>int\<close> cannot hold a length above \<open>INT_MAX\<close>, and a C library may fail to print
  for reasons of its own (want of working storage). What \<open>snprintf\<close> does in a call in
  which it does not deliver the text is the parameter \<open>snprintf_fail\<close> of the model:
  applied to the size and the text of a call, it is \<open>None\<close> where that call delivers the
  text, and otherwise gives the bytes left at the start of the buffer and the \<open>int\<close>
  returned. Where the length exceeds \<open>INT_MAX\<close> and the parameter is \<open>None\<close>, the call
  fails with a negative result, as POSIX requires (\<open>EOVERFLOW\<close>).
\<close>

definition INT_MAX :: int where
  "INT_MAX = 2147483647"

type_synonym snprintf_failure = "nat \<Rightarrow> string \<Rightarrow> (string \<times> int32_t) option"

definition snprintf :: "snprintf_failure \<Rightarrow> string \<Rightarrow> string \<Rightarrow> string \<times> int32_t" where
  "snprintf snprintf_fail buffer out =
     (case snprintf_fail (length buffer) out of
        Some (stored, len) \<Rightarrow> (take (length buffer) stored @ drop (length stored) buffer, len)
      | None \<Rightarrow>
          if int (length out) \<le> INT_MAX
          then (snprintf_write buffer out, word_of_nat (length out))
          else (buffer, - 1))"

text \<open>\<open>buffer.resize(n)\<close>; storage for the buffer is taken to be unlimited.\<close>

definition resize :: "string \<Rightarrow> nat \<Rightarrow> string" where
  "resize buffer n = take n buffer @ replicate (n - length buffer) (CHR 0x00)"

text \<open>
  The \<open>while (true)\<close> loop of \<open>valueToString\<close> that prints into the buffer. \<open>len\<close> is
  the 32-bit \<open>int\<close> of the source; \<open>static_cast<size_t>(len)\<close> is reached only when
  \<open>len\<close> is not negative, where it keeps the value. The loop ends: a further round
  follows only a result that is not negative and not below the size, and makes the
  buffer one byte longer than that result, which is at most \<open>INT_MAX\<close>.
\<close>

function snprintf_loop :: "snprintf_failure \<Rightarrow> string \<Rightarrow> string \<Rightarrow> error + string" where
  "snprintf_loop snprintf_fail out buffer =
     (let r = snprintf snprintf_fail buffer out;
          written = fst r;
          len = snd r
      in case JSON_ASSERT (sint len \<ge> 0) of
           Inl e \<Rightarrow> Inl e
         | Inr _ \<Rightarrow>
             (let wouldPrint = nat (sint len)
              in if wouldPrint \<ge> length written
                 then snprintf_loop snprintf_fail out (resize written (wouldPrint + 1))
                 else Inr (resize written wouldPrint)))"
  by pat_completeness auto
termination
proof (relation "measure (\<lambda>(f, out, buffer). 2 ^ 31 - length buffer)")
  show "wf (measure (\<lambda>(f, out, buffer). 2 ^ 31 - length buffer))"
    by simp
next
  fix snprintf_fail :: snprintf_failure and out buffer :: string
    and r written len x2 wouldPrint
  assume r: "r = snprintf snprintf_fail buffer out"
    and w: "written = fst r" and l: "len = snd r"
    and wp: "wouldPrint = nat (sint len)" and ge: "length written \<le> wouldPrint"
  have "length (snprintf_write buffer out) = length buffer"
    by (cases buffer) (simp_all add: snprintf_write_def Let_def)
  then have lw: "length written = length buffer"
    unfolding w r snprintf_def
    by (auto split: option.splits prod.splits)
  have "sint len < 2 ^ 31"
    using sint_lt [of len] by simp
  then have "wouldPrint < 2 ^ 31"
    unfolding wp by (simp add: nat_less_iff)
  then show "((snprintf_fail, out, resize written (wouldPrint + 1)), snprintf_fail, out, buffer)
       \<in> measure (\<lambda>(f, out, buffer). 2 ^ 31 - length buffer)"
    using ge lw by (simp add: resize_def)
qed

declare snprintf_loop.simps [simp del]

definition reps :: "string list list" where
  "reps = [[''NaN'', ''-Infinity'', ''Infinity''], [''null'', ''-1e+9999'', ''1e+9999'']]"

text \<open>
  \<open>valueToString(double value, bool useSpecialFloats, unsigned int precision,
  PrecisionType precisionType)\<close>. The \<open>unsigned\<close> precision reaches \<open>snprintf\<close> as an
  \<open>int\<close>.
\<close>

definition valueToString_double ::
  "snprintf_failure \<Rightarrow> (int \<Rightarrow> double \<Rightarrow> string) \<Rightarrow> char \<Rightarrow> double \<Rightarrow> bool \<Rightarrow> uint32_t
     \<Rightarrow> PrecisionType \<Rightarrow> error + string" where
  "valueToString_double snprintf_fail printf_g radix val useSpecialFloats precision precisionType =
     (if \<not> isfinite val
      then Inr (reps ! (if useSpecialFloats then 0 else 1)
                     ! (if isnan val then 0 else if d_less val (double_of_int 0) then 1 else 2))
      else
        case snprintf_loop snprintf_fail
               (if precisionType = significantDigits then printf_g (sint precision) val
                else printf_f radix (sint precision) val)
               (replicate 36 (CHR 0x00)) of
          Inl e \<Rightarrow> Inl e
        | Inr buffer \<Rightarrow>
            (let buffer = fixNumericLocale buffer;
                 buffer = (if CHR ''.'' \<notin> set buffer \<and> CHR ''e'' \<notin> set buffer
                           then buffer @ ''.0'' else buffer);
                 buffer = (if precisionType = decimalPlaces
                           then take (fixZerosInTheEnd buffer (length buffer) precision) buffer
                           else buffer)
             in Inr buffer))"

text \<open>
  \<open>valueToString(double value, unsigned int precision = Value::defaultRealPrecision,
  PrecisionType precisionType = PrecisionType::significantDigits)\<close>.
\<close>

definition defaultRealPrecision :: uint32_t where
  "defaultRealPrecision = 17"

definition valueToString_double3 ::
  "snprintf_failure \<Rightarrow> (int \<Rightarrow> double \<Rightarrow> string) \<Rightarrow> char \<Rightarrow> double \<Rightarrow> uint32_t \<Rightarrow> PrecisionType
     \<Rightarrow> error + string" where
  "valueToString_double3 snprintf_fail printf_g radix val precision precisionType =
     valueToString_double snprintf_fail printf_g radix val False precision precisionType"


section \<open>Conversions and predicates of \<open>Value\<close>\<close>

text \<open>
  \<open>static constexpr int32_t maxUInt = uint32_t(-1)\<close>: as an \<open>int32_t\<close> it is \<open>-1\<close>.
\<close>

definition maxUInt :: int32_t where
  "maxUInt = - 1"

text \<open>
  \<open>integerToDouble(uint64_t value)\<close>, and the template \<open>integerToDouble(T value)\<close>, which
  is \<open>double_of_int\<close>.
\<close>

definition integerToDouble_uint64 :: "uint64_t \<Rightarrow> double" where
  "integerToDouble_uint64 v =
     d_add (d_mul (double_of_int (sint (v div 2))) (Finite False 2 0))
           (double_of_int (sint (v AND 1)))"

text \<open>\<open>InRange(d, min, max)\<close>, at the integer types of its uses (\<open>int\<close> and \<open>int32_t\<close>).\<close>

definition InRange :: "double \<Rightarrow> int \<Rightarrow> int \<Rightarrow> bool" where
  "InRange d lo hi = (d_ge d (double_of_int lo) \<and> d_le d (double_of_int hi))"

definition IsIntegral :: "double \<Rightarrow> bool" where
  "IsIntegral d = d_eq (fst (modf d)) (Finite False 0 0)"

definition isNull :: "Value \<Rightarrow> bool" where
  "isNull this = (type this = nullValue)"

definition isBool :: "Value \<Rightarrow> bool" where
  "isBool this = (type this = boolValue)"

text \<open>
  \<open>Value::isInt()\<close>. The integer comparisons are between an \<open>int64_t\<close> or \<open>uint64_t\<close> and
  an \<open>int32_t\<close> or \<open>uint32_t\<close>, whose conversions keep the value.
\<close>

definition isInt :: "Value \<Rightarrow> bool" where
  "isInt this =
     (case m_value this of
        v_int i \<Rightarrow> sint i \<ge> sint minInt \<and> sint i \<le> sint maxInt
      | v_uint u \<Rightarrow> uint u \<le> uint maxInt
      | v_real d \<Rightarrow>
          d_ge d (double_of_int (sint minInt)) \<and> d_le d (double_of_int (sint maxInt))
          \<and> IsIntegral d
      | _ \<Rightarrow> False)"

text \<open>
  \<open>Value::isUInt()\<close>. \<open>uint64_t(maxUInt)\<close> and the conversion of \<open>maxUInt\<close> to
  \<open>uint64_t\<close> in \<open>m_value.v_uint <= maxUInt\<close> extend the sign (\<open>scast\<close>).
\<close>

definition isUInt :: "Value \<Rightarrow> bool" where
  "isUInt this =
     (case m_value this of
        v_int i \<Rightarrow> sint i \<ge> 0 \<and> i \<le> (scast maxUInt :: uint64_t)
      | v_uint u \<Rightarrow> u \<le> (scast maxUInt :: uint64_t)
      | v_real d \<Rightarrow>
          d_ge d (double_of_int 0) \<and> d_le d (double_of_int (sint maxUInt)) \<and> IsIntegral d
      | _ \<Rightarrow> False)"

definition isDouble :: "Value \<Rightarrow> bool" where
  "isDouble this = (type this = intValue \<or> type this = uintValue \<or> type this = realValue)"

definition isNumeric :: "Value \<Rightarrow> bool" where
  "isNumeric this = isDouble this"

text \<open>\<open>Value::asInt()\<close>; \<open>int32_t(x)\<close> of a 64-bit integer keeps the low 32 bits.\<close>

definition asInt :: "Value \<Rightarrow> error + int32_t" where
  "asInt this =
     (case m_value this of
        v_int i \<Rightarrow>
          (case JSON_ASSERT (isInt this) of Inl e \<Rightarrow> Inl e | Inr _ \<Rightarrow> Inr (ucast i))
      | v_uint u \<Rightarrow>
          (case JSON_ASSERT (isInt this) of Inl e \<Rightarrow> Inl e | Inr _ \<Rightarrow> Inr (ucast u))
      | v_real d \<Rightarrow>
          (case JSON_ASSERT (InRange d (sint minInt) (sint maxInt)) of
             Inl e \<Rightarrow> Inl e
           | Inr _ \<Rightarrow>
               (case int32_of_double d of
                  None \<Rightarrow> Inl UndefinedBehaviour
                | Some r \<Rightarrow> Inr r))
      | v_null \<Rightarrow> Inr 0
      | v_bool b \<Rightarrow> Inr (if b then 1 else 0)
      | _ \<Rightarrow> Inl LogicError)"

text \<open>\<open>Value::asDouble()\<close>.\<close>

definition asDouble :: "Value \<Rightarrow> error + double" where
  "asDouble this =
     (case m_value this of
        v_int i \<Rightarrow> Inr (double_of_int (sint i))
      | v_uint u \<Rightarrow> Inr (to_float (integerToDouble_uint64 u))
      | v_real d \<Rightarrow> Inr d
      | v_null \<Rightarrow> Inr (Finite False 0 0)
      | v_bool b \<Rightarrow> Inr (if b then Finite False 1 0 else Finite False 0 0)
      | _ \<Rightarrow> Inl LogicError)"

text \<open>
  \<open>Value::asString()\<close>. For a string value whose pointer is null the source executes
  \<open>return nullptr;\<close>, which builds a \<open>std::string\<close> from a null pointer.
\<close>

definition asString ::
  "snprintf_failure \<Rightarrow> (int \<Rightarrow> double \<Rightarrow> string) \<Rightarrow> char \<Rightarrow> Value \<Rightarrow> error + string" where
  "asString snprintf_fail printf_g radix this =
     (case m_value this of
        v_null \<Rightarrow> Inr []
      | v_string p \<Rightarrow>
          (case p of
             None \<Rightarrow> Inl UndefinedBehaviour
           | Some mem \<Rightarrow>
               (let (this_len, this_str) = decodePrefixedString (allocated this) mem
                in Inr (take (unat this_len) this_str)))
      | v_bool b \<Rightarrow> Inr (if b then ''true'' else ''false'')
      | v_int i \<Rightarrow> valueToString_int64 i
      | v_uint u \<Rightarrow> valueToString_uint64 u
      | v_real d \<Rightarrow>
          valueToString_double3 snprintf_fail printf_g radix d defaultRealPrecision
            significantDigits
      | _ \<Rightarrow> Inl LogicError)"

text \<open>
  \<open>a || b\<close> and \<open>a && b\<close> where an operand can raise: the right operand is evaluated
  only when the left one does not decide.
\<close>

definition or_else :: "error + bool \<Rightarrow> error + bool \<Rightarrow> error + bool" where
  "or_else a b = (case a of Inl e \<Rightarrow> Inl e | Inr True \<Rightarrow> Inr True | Inr False \<Rightarrow> b)"

definition and_then :: "error + bool \<Rightarrow> error + bool \<Rightarrow> error + bool" where
  "and_then a b = (case a of Inl e \<Rightarrow> Inl e | Inr True \<Rightarrow> b | Inr False \<Rightarrow> Inr False)"

text \<open>\<open>Value::isConvertibleTo(ValueType other)\<close>.\<close>

definition isConvertibleTo ::
  "snprintf_failure \<Rightarrow> (int \<Rightarrow> double \<Rightarrow> string) \<Rightarrow> char \<Rightarrow> Value \<Rightarrow> ValueType
     \<Rightarrow> error + bool" where
  "isConvertibleTo snprintf_fail printf_g radix this other =
     (case other of
        nullValue \<Rightarrow>
          or_else (and_then (Inr (isNumeric this))
                     (map_sum id (\<lambda>d. d_eq d (Finite False 0 0)) (asDouble this)))
         (or_else (Inr (case m_value this of v_bool b \<Rightarrow> \<not> b | _ \<Rightarrow> False))
         (or_else (and_then (Inr (type this = stringValue))
                     (map_sum id (\<lambda>str. str = []) (asString snprintf_fail printf_g radix this)))
         (or_else (Inr (case m_value this of v_array m \<Rightarrow> m = [] | _ \<Rightarrow> False))
         (or_else (Inr (case m_value this of v_object m \<Rightarrow> m = [] | _ \<Rightarrow> False))
                  (Inr (type this = nullValue))))))
      | intValue \<Rightarrow>
          Inr (isInt this
               \<or> (case m_value this of
                     v_real d \<Rightarrow> InRange d (sint minInt) (sint maxInt) | _ \<Rightarrow> False)
               \<or> type this = boolValue \<or> type this = nullValue)
      | uintValue \<Rightarrow>
          Inr (isUInt this
               \<or> (case m_value this of
                     v_real d \<Rightarrow> InRange d 0 (sint maxUInt) | _ \<Rightarrow> False)
               \<or> type this = boolValue \<or> type this = nullValue)
      | realValue \<Rightarrow>
          Inr (isNumeric this \<or> type this = boolValue \<or> type this = nullValue)
      | boolValue \<Rightarrow>
          Inr (isNumeric this \<or> type this = boolValue \<or> type this = nullValue)
      | stringValue \<Rightarrow>
          Inr (isNumeric this \<or> type this = boolValue \<or> type this = stringValue
               \<or> type this = nullValue)
      | arrayValue \<Rightarrow> Inr (type this = arrayValue \<or> type this = nullValue)
      | objectValue \<Rightarrow> Inr (type this = objectValue \<or> type this = nullValue))"

text \<open>\<open>Value::operator bool()\<close>.\<close>

definition operator_bool :: "Value \<Rightarrow> bool" where
  "operator_bool this = (\<not> isNull this)"

section \<open>Construction, swap and move\<close>

text \<open>
  Modelled from the spec: \<open>Value::initBasic(ValueType type, bool allocated = false)\<close> is
  declared in value.h and called by every constructor, but its definition is not among
  the sources. By the spec a fresh value has no comment (the side structure is allocated
  lazily) and the offset range \<open>(0, 0)\<close>. It sets the type tag and the \<open>allocated\<close> bit and
  leaves the union to the constructor; in the model the tag comes with the payload that
  the constructor stores next.
\<close>

definition initBasic :: "ValueHolder \<Rightarrow> bool \<Rightarrow> Value" where
  "initBasic payload allocated_bit = Value payload allocated_bit None 0 0"

text \<open>
  The constructors \<open>Value(ValueType)\<close> (its \<open>emptyString\<close> is the static array \<open>""\<close>),
  \<open>Value(int32_t)\<close>, \<open>Value(uint32_t)\<close>, \<open>Value(int64_t)\<close>, \<open>Value(uint64_t)\<close>,
  \<open>Value(double)\<close>, \<open>Value(bool)\<close>, \<open>Value(const StaticString&)\<close> and
  \<open>Value(const std::string&)\<close>.
\<close>

definition Value_of_type :: "ValueType \<Rightarrow> Value" where
  "Value_of_type t =
     (case t of
        nullValue \<Rightarrow> initBasic v_null False
      | intValue \<Rightarrow> initBasic (v_int 0) False
      | uintValue \<Rightarrow> initBasic (v_uint 0) False
      | realValue \<Rightarrow> initBasic (v_real (Finite False 0 0)) False
      | stringValue \<Rightarrow> initBasic (v_string (Some [CHR 0x00])) False
      | arrayValue \<Rightarrow> initBasic (v_array []) False
      | objectValue \<Rightarrow> initBasic (v_object []) False
      | boolValue \<Rightarrow> initBasic (v_bool False) False)"

definition Value_of_int32 :: "int32_t \<Rightarrow> Value" where
  "Value_of_int32 v = initBasic (v_int (scast v)) False"

definition Value_of_uint32 :: "uint32_t \<Rightarrow> Value" where
  "Value_of_uint32 v = initBasic (v_uint (ucast v)) False"

definition Value_of_int64 :: "int64_t \<Rightarrow> Value" where
  "Value_of_int64 v = initBasic (v_int v) False"

definition Value_of_uint64 :: "uint64_t \<Rightarrow> Value" where
  "Value_of_uint64 v = initBasic (v_uint v) False"

definition Value_of_double :: "double \<Rightarrow> Value" where
  "Value_of_double v = initBasic (v_real v) False"

definition Value_of_bool :: "bool \<Rightarrow> Value" where
  "Value_of_bool v = initBasic (v_bool v) False"

definition Value_of_StaticString :: "char_ptr \<Rightarrow> Value" where
  "Value_of_StaticString c_str = initBasic (v_string c_str) False"

definition Value_of_string :: "string \<Rightarrow> error + Value" where
  "Value_of_string str =
     (case duplicateAndPrefixStringValue str (of_nat (length str)) of
        Inl e \<Rightarrow> Inl e
      | Inr mem \<Rightarrow> Inr (initBasic (v_string (Some mem)) True))"

text \<open>
  \<open>Value::swapPayload\<close> exchanges \<open>m_bits\<close> and \<open>m_value\<close>; \<open>Value::swap\<close> exchanges the
  comments and the offsets as well. Both return the new \<open>*this\<close> and the new \<open>other\<close>.
\<close>

definition swapPayload :: "Value \<Rightarrow> Value \<Rightarrow> Value \<times> Value" where
  "swapPayload this other =
     (Value (m_value other) (allocated other) (m_comments this) (m_start this) (m_limit this),
      Value (m_value this) (allocated this) (m_comments other) (m_start other) (m_limit other))"

definition Value_swap :: "Value \<Rightarrow> Value \<Rightarrow> Value \<times> Value" where
  "Value_swap this other =
     (let (this1, other1) = swapPayload this other
      in (Value (m_value this1) (allocated this1) (m_comments other1) (m_start other1)
            (m_limit other1),
          Value (m_value other1) (allocated other1) (m_comments this1) (m_start this1)
            (m_limit this1)))"

text \<open>
  The move constructor \<open>Value(Value&& other)\<close> and the move assignment
  \<open>operator=(Value&& other)\<close>, which is \<open>other.swap(*this)\<close>. Both return the
  destination and the moved-from \<open>other\<close>.
\<close>

definition Value_move_construct :: "Value \<Rightarrow> Value \<times> Value" where
  "Value_move_construct other = Value_swap (initBasic v_null False) other"

definition Value_move_assign :: "Value \<Rightarrow> Value \<Rightarrow> Value \<times> Value" where
  "Value_move_assign this other = (let (other1, this1) = Value_swap other this in (this1, other1))"


section \<open>Notions used in the statements and proofs\<close>

text \<open>
  The 32-bit value \<open>r\<close> represents the value \<open>v\<close> without loss: it is the integer that
  \<open>v\<close> holds, it compares equal to the double that \<open>v\<close> holds, or it is the 1 or 0 that
  stands for a boolean or for null. And: \<open>asInt(v)\<close> returns, without raising, a value
  that represents \<open>v\<close> without loss.
\<close>

definition represents :: "Value \<Rightarrow> int32_t \<Rightarrow> bool" where
  "represents v r =
     (case m_value v of
        v_int i \<Rightarrow> sint r = sint i
      | v_uint u \<Rightarrow> sint r = uint u
      | v_real d \<Rightarrow> d_eq (double_of_int (sint r)) d
      | v_bool b \<Rightarrow> sint r = (if b then 1 else 0)
      | v_null \<Rightarrow> sint r = 0
      | _ \<Rightarrow> False)"

definition asInt_lossless :: "Value \<Rightarrow> bool" where
  "asInt_lossless v = (case asInt v of Inl e \<Rightarrow> False | Inr r \<Rightarrow> represents v r)"

text \<open>The digits of a fraction without its trailing zeros.\<close>

definition strip_zeros :: "string \<Rightarrow> string" where
  "strip_zeros ds = rev (dropWhile (\<lambda>c. c = CHR ''0'') (rev ds))"

text \<open>
  The C library whose \<open>snprintf\<close> delivers every text whose length an \<open>int\<close> can hold.
\<close>

definition always_delivers :: snprintf_failure where
  "always_delivers n out = None"

text \<open>
  The shape of the doubles that the conversions of unsigned integers go through: not
  negative, without fractional bits, and zero exactly when \<open>z\<close> holds.
\<close>

definition int_shape :: "double \<Rightarrow> bool \<Rightarrow> bool" where
  "int_shape d z =
     (case d of
        Finite s m e \<Rightarrow> \<not> s \<and> 0 \<le> e \<and> (m = 0) = z
      | Infinity s \<Rightarrow> \<not> s \<and> \<not> z
      | NaN \<Rightarrow> False)"

section \<open>Properties of the integer formatting\<close>


lemma digit_char_code:
  "n < 10 \<Longrightarrow> (of_char (char_of (n + of_char CHR ''0'' :: nat)) :: nat) = n + 48"
  by (simp add: of_char_of)

lemma decimal_value_snoc:
  "decimal_value (ds @ [c]) = 10 * decimal_value ds + (of_char c - 48)"
  by (simp add: decimal_value_def)

lemma decimal_value_single: "decimal_value [c] = of_char c - 48"
  by (simp add: decimal_value_def)

lemma char_of_48: "char_of (48 :: nat) = CHR ''0''"
  by code_simp

lemma zero_char_code: "(of_char c :: nat) = 48 \<longleftrightarrow> c = CHR ''0''"
proof
  assume "(of_char c :: nat) = 48"
  then have "char_of (of_char c :: nat) = char_of (48 :: nat)" by simp
  then show "c = CHR ''0''" by (simp only: char_of_char char_of_48)
qed simp

lemma uintToString_loop_digits:
  "\<exists>ds. uintToString_loop v cur = (fst cur - int (length ds), ds @ snd cur)
     \<and> ds \<noteq> [] \<and> list_all is_digit ds \<and> decimal_value ds = unat v
     \<and> (ds = ''0'' \<or> hd ds \<noteq> CHR ''0'')
     \<and> (length ds = 1 \<or> 10 ^ (length ds - 1) \<le> unat v)"
proof (induction v cur rule: uintToString_loop.induct)
  case (1 v cur)
  define c where "c = char_of (unat (v mod 10) + of_char CHR ''0'' :: nat)"
  have lt: "unat (v mod 10) < 10"
    by (simp add: unat_mod)
  have code: "(of_char c :: nat) = unat v mod 10 + 48"
    using digit_char_code [OF lt] by (simp add: c_def unat_mod)
  have dig: "is_digit c"
    using code by (simp add: is_digit_def)
  show ?case
  proof (cases "v div 10 = 0")
    case True
    then have "unat (v div 10) = 0" by simp
    then have "unat v div 10 = 0" by (simp add: unat_div)
    then have small: "unat v < 10" by simp
    have res: "uintToString_loop v cur = (fst cur - 1, c # snd cur)"
      using True by (subst uintToString_loop.simps) (simp add: put_def c_def Let_def)
    have "decimal_value [c] = unat v"
      using code small by (simp add: decimal_value_single)
    moreover have "[c] = ''0'' \<or> hd [c] \<noteq> CHR ''0''" by simp
    ultimately show ?thesis
      using res dig by (intro exI [of _ "[c]"]) simp
  next
    case False
    from "1.IH" [OF refl refl False]
    obtain ds where ds:
      "uintToString_loop (v div 10) (put c cur) = (fst (put c cur) - int (length ds), ds @ snd (put c cur))"
      "ds \<noteq> []" "list_all is_digit ds" "decimal_value ds = unat (v div 10)"
      "ds = ''0'' \<or> hd ds \<noteq> CHR ''0''"
      "length ds = 1 \<or> 10 ^ (length ds - 1) \<le> unat (v div 10)"
      unfolding c_def by blast
    have res: "uintToString_loop v cur = (fst cur - int (length (ds @ [c])), (ds @ [c]) @ snd cur)"
      using False ds(1) by (subst uintToString_loop.simps) (simp add: put_def c_def Let_def)
    have nz: "unat (v div 10) \<noteq> 0"
      using False by (simp only: unat_eq_zero not_False_eq_True)
    have val: "decimal_value (ds @ [c]) = unat v"
      using ds(4) code by (simp add: decimal_value_snoc unat_div)
    have "ds \<noteq> ''0''"
      using ds(4) nz by (auto simp: decimal_value_single)
    then have lead: "hd (ds @ [c]) \<noteq> CHR ''0''"
      using ds(2,5) by simp
    have "10 ^ (length ds - 1) \<le> unat (v div 10)"
      using ds(6) nz by auto
    then have "10 * 10 ^ (length ds - 1) \<le> unat v"
      by (simp add: unat_div)
    then have len: "10 ^ (length (ds @ [c]) - 1) \<le> unat v"
      using ds(2) by (cases ds) simp_all
    show ?thesis
      using res val lead len ds(2,3) dig
      by (intro exI [of _ "ds @ [c]"]) simp
  qed
qed



lemma unat_neg_of_sint_neg:
  fixes v :: "64 word"
  assumes "sint v < 0"
  shows "int (unat (- v)) = - sint v"
proof -
  have "- v = word_of_int (- sint v)" by simp
  then have "uint (- v) = take_bit 64 (- sint v)"
    by (simp only: uint_word_of_int_eq) simp
  moreover have "0 \<le> - sint v" "- sint v < 2 ^ 64"
    using sint_ge [of v] assms by simp_all
  ultimately show ?thesis
    by (simp add: take_bit_int_eq_self)
qed

lemma unat_of_sint_nonneg:
  fixes v :: "64 word"
  assumes "\<not> sint v < 0"
  shows "int (unat v) = sint v"
proof -
  have "uint v = take_bit 64 (sint v)"
    using uint_sint [of v] by simp
  moreover have "0 \<le> sint v" "sint v < 2 ^ 64"
    using sint_lt [of v] assms by simp_all
  ultimately show ?thesis
    by (simp add: take_bit_int_eq_self)
qed


lemma digit_not_NUL: "is_digit c \<Longrightarrow> c \<noteq> CHR 0x00"
  by (auto simp: is_digit_def)

lemma takeWhile_digits:
  "list_all is_digit ds \<Longrightarrow> takeWhile (\<lambda>c. c \<noteq> CHR 0x00) (ds @ CHR 0x00 # rest) = ds"
  by (induction ds) (auto dest: digit_not_NUL)

lemma uintToString_digits:
  "\<exists>ds. uintToString v (buffer_size, []) = (24 - int (length ds), ds @ [CHR 0x00])
     \<and> ds \<noteq> [] \<and> list_all is_digit ds \<and> decimal_value ds = unat v
     \<and> (ds = ''0'' \<or> hd ds \<noteq> CHR ''0'') \<and> length ds \<le> 20"
proof -
  obtain ds where ds:
    "uintToString_loop v (put (CHR 0x00) (buffer_size, []))
       = (fst (put (CHR 0x00) (buffer_size, [])) - int (length ds),
          ds @ snd (put (CHR 0x00) (buffer_size, [])))"
    "ds \<noteq> []" "list_all is_digit ds" "decimal_value ds = unat v"
    "ds = ''0'' \<or> hd ds \<noteq> CHR ''0''"
    "length ds = 1 \<or> 10 ^ (length ds - 1) \<le> unat v"
    using uintToString_loop_digits [of v "put (CHR 0x00) (buffer_size, [])"] by blast
  have "length ds \<le> 20"
  proof (rule ccontr)
    assume "\<not> length ds \<le> 20"
    then have big: "20 \<le> length ds - 1" and "length ds \<noteq> 1" by simp_all
    with ds(6) have "10 ^ (length ds - 1) \<le> unat v" by simp
    moreover have "(10::nat) ^ 20 \<le> 10 ^ (length ds - 1)"
      using big by (intro power_increasing) simp_all
    moreover have "unat v < 2 ^ 64"
      using unsigned_less [of v] by simp
    ultimately show False by simp
  qed
  with ds show ?thesis
    by (intro exI [of _ ds]) (simp add: uintToString_def put_def buffer_size_def)
qed

text \<open>
  Claim C9. For every signed 64-bit integer \<open>n\<close>, \<open>valueToString(n)\<close> returns the exact
  decimal representation of \<open>n\<close>: it does not raise, and its text is a minus sign exactly
  when \<open>n\<close> is negative, followed by decimal digits without a leading zero (the single
  digit \<open>0\<close> for zero) that denote the absolute value of \<open>n\<close>. The most negative integer
  goes through the unsigned domain: \<open>valueToString(-9223372036854775808)\<close> is
  \<open>"-9223372036854775808"\<close>.
\<close>

theorem valueToString_int64_exact:
  "(\<exists>ds. valueToString_int64 v = Inr ((if sint v < 0 then ''-'' else []) @ ds)
      \<and> ds \<noteq> [] \<and> list_all is_digit ds \<and> (ds = ''0'' \<or> hd ds \<noteq> CHR ''0'')
      \<and> int (decimal_value ds) = \<bar>sint v\<bar>)
   \<and> valueToString_int64 (- 9223372036854775808) = Inr ''-9223372036854775808''"
proof
  define u :: uint64_t where
    "u = (if v = minInt64 then maxInt64 + 1 else if v <s 0 then - v else v)"
  have u: "int (unat u) = \<bar>sint v\<bar>"
  proof (cases "v = minInt64")
    case True
    then show ?thesis
      by (simp add: u_def maxInt64_def minInt64_def)
  next
    case False
    then show ?thesis
      using unat_neg_of_sint_neg [of v] unat_of_sint_nonneg [of v]
      by (simp add: u_def word_sless_alt)
  qed
  have neg: "(v = minInt64 \<or> v <s 0) = (sint v < 0)"
    by (auto simp: word_sless_alt minInt64_def)
  obtain ds where ds:
    "uintToString u (buffer_size, []) = (24 - int (length ds), ds @ [CHR 0x00])"
    "ds \<noteq> []" "list_all is_digit ds" "decimal_value ds = unat u"
    "ds = ''0'' \<or> hd ds \<noteq> CHR ''0''" "length ds \<le> 20"
    using uintToString_digits [of u] by blast
  have "valueToString_int64 v = Inr ((if sint v < 0 then ''-'' else []) @ ds)"
  proof (cases "sint v < 0")
    case True
    with neg have cur: "(if v = minInt64 then put (CHR ''-'') (uintToString (maxInt64 + 1) (buffer_size, []))
                 else if v <s 0 then put (CHR ''-'') (uintToString (- v) (buffer_size, []))
                 else uintToString v (buffer_size, [])) = put (CHR ''-'') (uintToString u (buffer_size, []))"
      by (auto simp: u_def)
    show ?thesis
      using True ds(3,6) takeWhile_digits [OF ds(3), of "[]"]
      unfolding valueToString_int64_def Let_def cur ds(1)
      by (simp add: put_def JSON_ASSERT_def c_str_at_def)
  next
    case False
    with neg have cur: "(if v = minInt64 then put (CHR ''-'') (uintToString (maxInt64 + 1) (buffer_size, []))
                 else if v <s 0 then put (CHR ''-'') (uintToString (- v) (buffer_size, []))
                 else uintToString v (buffer_size, [])) = uintToString u (buffer_size, [])"
      by (auto simp: u_def)
    show ?thesis
      using False ds(3,6) takeWhile_digits [OF ds(3), of "[]"]
      unfolding valueToString_int64_def Let_def cur ds(1)
      by (simp add: put_def JSON_ASSERT_def c_str_at_def)
  qed
  with ds u show "\<exists>ds. valueToString_int64 v = Inr ((if sint v < 0 then ''-'' else []) @ ds)
      \<and> ds \<noteq> [] \<and> list_all is_digit ds \<and> (ds = ''0'' \<or> hd ds \<noteq> CHR ''0'')
      \<and> int (decimal_value ds) = \<bar>sint v\<bar>"
    by (intro exI [of _ ds]) simp
next
  show "valueToString_int64 (- 9223372036854775808) = Inr ''-9223372036854775808''"
    by code_simp
qed

theorem valueToString_int64_exact_witness:
  "\<exists>ds. valueToString_int64 (- 42) = Inr (''-'' @ ds)
      \<and> ds \<noteq> [] \<and> list_all is_digit ds \<and> (ds = ''0'' \<or> hd ds \<noteq> CHR ''0'')
      \<and> int (decimal_value ds) = 42"
  using valueToString_int64_exact [of "- 42"] by simp


section \<open>Properties of move, boolean conversion, non-finite doubles and keys\<close>

lemma Value_swap_eq: "Value_swap this other = (other, this)"
  by (simp add: Value_swap_def swapPayload_def)

text \<open>
  Claim C4, as amended. Move construction transfers the whole state of the source to the
  new value and leaves the source in the null state of \<open>initBasic(nullValue)\<close>. Move
  assignment is a swap: the destination receives the state of the source and the source
  receives the previous state of the destination, so the source is null afterwards
  exactly when the destination was null before.
\<close>

theorem move_transfers_payload:
  "Value_move_construct other = (other, initBasic v_null False)
   \<and> isNull (snd (Value_move_construct other))
   \<and> Value_move_assign this other = (other, this)
   \<and> isNull (snd (Value_move_assign this other)) = isNull this"
  by (simp add: Value_move_construct_def Value_move_assign_def Value_swap_eq isNull_def
        type_def initBasic_def)

text \<open>
  Claim C4 as stated fails for move assignment: after \<open>a = std::move(b)\<close> with \<open>a\<close>
  holding the integer 1 and \<open>b\<close> the integer 2, the moved-from \<open>b\<close> is not null (it
  holds 1).
\<close>

theorem move_assign_source_not_null:
  "\<not> isNull (snd (Value_move_assign (Value_of_int32 1) (Value_of_int32 2)))"
  by (simp add: Value_move_assign_def Value_swap_eq isNull_def type_def Value_of_int32_def
        initBasic_def)

text \<open>
  Claim C10. \<open>explicit operator bool\<close> returns true exactly when the value is not null:
  boolean false, integer zero, the empty string (static or duplicated), the empty array
  and the empty object convert to true, and the null value converts to false.
\<close>

theorem operator_bool_iff_not_null:
  "operator_bool v = (type v \<noteq> nullValue)
   \<and> operator_bool (Value_of_bool False)
   \<and> operator_bool (Value_of_int32 0)
   \<and> operator_bool (Value_of_type stringValue)
   \<and> (\<exists>s. Value_of_string [] = Inr s \<and> operator_bool s)
   \<and> operator_bool (Value_of_type arrayValue)
   \<and> operator_bool (Value_of_type objectValue)
   \<and> \<not> operator_bool (Value_of_type nullValue)"
  by (simp add: operator_bool_def isNull_def type_def Value_of_bool_def Value_of_int32_def
        Value_of_type_def Value_of_string_def initBasic_def
        duplicateAndPrefixStringValue_def JSON_ASSERT_def new_char_array_def maxInt_def
        sizeof_unsigned_def)

lemma double_of_int_0: "double_of_int 0 = Finite False 0 0"
  by (simp add: double_of_int_def round_double_def round_to_def overflow_to_def)

text \<open>
  Claim C8. A non-finite double is a NaN or one of the two infinities, and
  \<open>valueToString\<close> returns one fixed token for it, whatever the precision and the
  precision type: with \<open>useSpecialFloats\<close> the tokens \<open>NaN\<close>, \<open>-Infinity\<close> and
  \<open>Infinity\<close>, without it \<open>null\<close>, \<open>-1e+9999\<close> and \<open>1e+9999\<close>.
\<close>

theorem valueToString_double_nonfinite:
  assumes "\<not> isfinite d"
  shows "(d = NaN \<or> d = Infinity True \<or> d = Infinity False)
    \<and> valueToString_double snprintf_fail printf_g radix d True precision precisionType
        = Inr (if d = NaN then ''NaN'' else if d = Infinity True then ''-Infinity'' else ''Infinity'')
    \<and> valueToString_double snprintf_fail printf_g radix d False precision precisionType
        = Inr (if d = NaN then ''null'' else if d = Infinity True then ''-1e+9999'' else ''1e+9999'')"
proof (cases d)
  case (Finite s m e)
  with assms show ?thesis by (simp add: isfinite_def)
next
  case (Infinity s)
  then show ?thesis
    by (cases s) (simp_all add: valueToString_double_def isfinite_def isnan_def reps_def double_of_int_0)
next
  case NaN
  then show ?thesis
    by (simp add: valueToString_double_def isfinite_def isnan_def reps_def)
qed

theorem valueToString_double_nonfinite_witness:
  "valueToString_double always_delivers (printf_f (CHR ''.'')) (CHR ''.'') (Infinity True) True 17
       significantDigits
     = Inr ''-Infinity''
   \<and> valueToString_double always_delivers (printf_f (CHR ''.'')) (CHR ''.'') (Infinity True) False 17
       significantDigits
     = Inr ''-1e+9999''"
  using valueToString_double_nonfinite
    [of "Infinity True" always_delivers "printf_f (CHR ''.'')" "CHR ''.''" 17 significantDigits]
  by (simp add: isfinite_def)

text \<open>
  Claim C1 says that a name-key that is a strict prefix of another name-key compares
  less than it. At the keys \<open>"a"\<close> (length 1) and \<open>"ab"\<close> (length 2) \<open>operator<\<close>
  returns false, because the length tie-break after the \<open>if ... else\<close> is never reached;
  it returns false the other way round as well, and \<open>operator==\<close> returns false, as the
  claim says, since the lengths differ. So the two keys are neither equal nor ordered.
\<close>

theorem CZString_less_prefix_not_less:
  "CZString_less (CZString_str (Some [CHR ''a'', CHR 0x00]) 1 noDuplication)
                 (CZString_str (Some [CHR ''a'', CHR ''b'', CHR 0x00]) 2 noDuplication)
     = Inr False
   \<and> CZString_less (CZString_str (Some [CHR ''a'', CHR ''b'', CHR 0x00]) 2 noDuplication)
                   (CZString_str (Some [CHR ''a'', CHR 0x00]) 1 noDuplication)
     = Inr False
   \<and> CZString_eq (CZString_str (Some [CHR ''a'', CHR 0x00]) 1 noDuplication)
                 (CZString_str (Some [CHR ''a'', CHR ''b'', CHR 0x00]) 2 noDuplication)
     = Inr False"
  by code_simp


section \<open>Properties of \<open>Value::operator==\<close>\<close>

lemma memcmp_same: "memcmp xs xs n = 0"
proof (induction xs arbitrary: n)
  case Nil
  show ?case by simp
next
  case (Cons x xs)
  then show ?case by (cases n) simp_all
qed

lemma d_less_irrefl: "\<not> d_less x x"
  by (cases x) simp_all

text \<open>
  Claim C2. For two values of the same scalar variant (int, uint, real, bool or string)
  \<open>operator==\<close> returns what \<open>operator<\<close> returns. So with the same payload on both
  sides (the same union member and \<open>allocated\<close> bit; in particular \<open>v == v\<close>) it returns
  false. For two null values it returns true.
\<close>

theorem value_eq_is_less_on_scalars:
  "(type a = type b \<and> type a \<in> {intValue, uintValue, realValue, boolValue, stringValue}
      \<longrightarrow> value_eq a b = value_less a b)
   \<and> (type a \<in> {intValue, uintValue, realValue, boolValue, stringValue}
        \<and> m_value a = m_value b \<and> allocated a = allocated b
      \<longrightarrow> value_eq a b = Inr False)
   \<and> (type a = nullValue \<and> type b = nullValue \<longrightarrow> value_eq a b = Inr True)"
proof (intro conjI impI)
  assume "type a = type b \<and> type a \<in> {intValue, uintValue, realValue, boolValue, stringValue}"
  then show "value_eq a b = value_less a b"
    by (cases "m_value a"; cases "m_value b")
       (simp_all add: value_eq_def value_less.simps [of a b] type_def)
next
  assume h: "type a \<in> {intValue, uintValue, realValue, boolValue, stringValue}
        \<and> m_value a = m_value b \<and> allocated a = allocated b"
  show "value_eq a b = Inr False"
  proof (cases "m_value a")
    case (v_string p)
    with h have b: "m_value b = v_string p" "allocated b = allocated a" by simp_all
    show ?thesis
      by (cases p)
         (simp_all add: value_eq_def type_def v_string b memcmp_same Let_def split: prod.splits)
  qed (use h in \<open>auto simp: value_eq_def type_def d_less_irrefl\<close>)
next
  assume "type a = nullValue \<and> type b = nullValue"
  then show "value_eq a b = Inr True"
    by (cases "m_value a") (simp_all add: value_eq_def type_def)
qed

theorem value_eq_is_less_on_scalars_witness:
  "value_eq (Value_of_int32 7) (Value_of_int32 7) = value_less (Value_of_int32 7) (Value_of_int32 7)
   \<and> value_eq (Value_of_int32 7) (Value_of_int32 7) = Inr False
   \<and> value_eq (Value_of_type nullValue) (Value_of_type nullValue) = Inr True"
proof -
  have "type (Value_of_int32 7) \<in> {intValue, uintValue, realValue, boolValue, stringValue}"
    and "type (Value_of_type nullValue) = nullValue"
    by (simp_all add: Value_of_int32_def Value_of_type_def initBasic_def type_def)
  then show ?thesis
    using value_eq_is_less_on_scalars [of "Value_of_int32 7" "Value_of_int32 7"]
      value_eq_is_less_on_scalars [of "Value_of_type nullValue" "Value_of_type nullValue"]
    by blast
qed


section \<open>Properties of the duplication of string buffers\<close>

lemma unat_maxInt: "unat maxInt = 2147483647"
  by (simp add: maxInt_def)

lemma duplicateStringValue_result:
  "duplicateStringValue val len =
     Inr ((take (if len \<ge> 2147483647 then 2147483646 else len) val
           @ replicate (Suc (if len \<ge> 2147483647 then 2147483646 else len)
                        - length (take (if len \<ge> 2147483647 then 2147483646 else len) val))
                (CHR 0x00))
          [(if len \<ge> 2147483647 then 2147483646 else len) := CHR 0x00])"
  by (simp add: duplicateStringValue_def new_char_array_def memcpy_def unat_maxInt Let_def
      del: replicate_Suc)

lemma duplicateStringValue_enough:
  assumes "len \<le> length val"
  shows "duplicateStringValue val len =
     Inr (take (if len \<ge> 2147483647 then 2147483646 else len) val @ [CHR 0x00])"
proof -
  define n where "n = (if len \<ge> 2147483647 then 2147483646 else len)"
  have n: "n \<le> length val" using assms by (simp add: n_def)
  then have "length (take n val) = n" by simp
  then have "(take n val @ replicate (Suc n - length (take n val)) (CHR 0x00))[n := CHR 0x00]
      = take n val @ [CHR 0x00]"
    by (simp add: list_update_append)
  then show ?thesis
    unfolding duplicateStringValue_result n_def by simp
qed

lemma storage_length_less: "unat (storage_length k) < 2 ^ 30"
proof -
  have "unat (m_index k) < 2 ^ 32"
    using unsigned_less [of "m_index k"] by simp
  then show ?thesis
    by (simp add: storage_length_def unat_drop_bit_eq drop_bit_eq_div unat_div)
qed

lemma length_mask: "(0x3fffffff :: uint32_t) = mask 30"
  by (simp add: mask_eq_exp_minus_1)

lemma policy_mask: "(3 :: uint32_t) = mask 2"
  by (simp add: mask_eq_exp_minus_1)

lemma storage_length_set:
  "storage_length (set_storage_length v k) = v AND 0x3fffffff"
  unfolding storage_length_def set_storage_length_def length_mask policy_mask
  by (rule bit_word_eqI) (auto simp: bit_simps)

lemma storage_policy_set_length:
  "storage_policy (set_storage_length v k) = storage_policy k"
  unfolding storage_policy_def set_storage_length_def length_mask policy_mask
  by (rule bit_word_eqI) (auto simp: bit_simps)

lemma storage_length_mask: "storage_length k AND 0x3fffffff = storage_length k"
  unfolding storage_length_def length_mask
  by (rule bit_word_eqI) (auto simp: bit_simps dest: bit_imp_le_length)

lemma m_cstr_set [simp]:
  "m_cstr (set_storage_length v k) = m_cstr k"
  "m_cstr (set_storage_policy v k) = m_cstr k"
  by (simp_all add: set_storage_length_def set_storage_policy_def)


lemma CZString_copy_duplicates:
  assumes "m_cstr k = Some mem" and "storage_policy k \<noteq> policy_bits noDuplication"
    and "unat (storage_length k) \<le> length mem"
  shows "\<exists>k'. CZString_copy k = Inr k'
           \<and> m_cstr k' = Some (take (unat (storage_length k)) mem @ [CHR 0x00])
           \<and> storage_length k' = storage_length k"
proof -
  have "\<not> 2147483647 \<le> unat (storage_length k)"
    using storage_length_less [of k] by simp
  then have "duplicateStringValue mem (unat (storage_length k))
      = Inr (take (unat (storage_length k)) mem @ [CHR 0x00])"
    using duplicateStringValue_enough [OF assms(3)] by simp
  then show ?thesis
    using assms(1,2)
    by (simp add: CZString_copy_def storage_length_set storage_length_mask)
qed

lemma duplicateAndPrefix_ok:
  assumes "unat len \<le> 2147483642" and "unat len \<le> length val"
  shows "duplicateAndPrefixStringValue val len
           = Inr (store_unsigned len @ take (unat len) val @ [CHR 0x00])"
proof -
  have st: "length (store_unsigned len) = 4"
    by (simp add: store_unsigned_def sizeof_unsigned_def)
  have tk: "length (take (unat len) val) = unat len"
    using assms(2) by simp
  have "(store_unsigned len @ take (unat len) val @ [CHR 0x00])[4 + unat len := CHR 0x00]
      = store_unsigned len @ take (unat len) val @ [CHR 0x00]"
    using assms(2) by (simp add: list_update_append st min_absorb2)
  then show ?thesis
    using assms
    by (simp add: duplicateAndPrefixStringValue_def JSON_ASSERT_def unat_maxInt
          sizeof_unsigned_def new_char_array_def memcpy_def Let_def tk)
qed

lemma duplicateAndPrefix_too_long:
  assumes "2147483642 < unat len"
  shows "duplicateAndPrefixStringValue val len = Inl LogicError"
  using assms
  by (simp add: duplicateAndPrefixStringValue_def JSON_ASSERT_def unat_maxInt sizeof_unsigned_def)

text \<open>
  Claim C5, as amended. \<open>duplicateStringValue\<close> never raises: it copies \<open>length\<close> bytes
  and a terminator, and only a length of \<open>maxInt = 2\<^sup>3\<^sup>1 - 1\<close> or more is cut, to
  \<open>2\<^sup>3\<^sup>1 - 2\<close>. A key stores its length in thirty bits (the constructor keeps the length
  modulo \<open>2\<^sup>3\<^sup>0\<close>), so the copy of a key duplicates exactly the stored length.
  \<open>duplicateAndPrefixStringValue\<close>, which builds string values, copies \<open>length\<close> bytes
  behind the length prefix when \<open>length \<le> 2\<^sup>3\<^sup>1 - 6\<close> and raises a logic error for a
  longer input.
\<close>

theorem duplicate_length_limits:
  "(\<exists>buf. duplicateStringValue val n = Inr buf
       \<and> length buf = (if n \<ge> 2 ^ 31 - 1 then 2 ^ 31 - 2 else n) + 1
       \<and> (n \<le> length val \<longrightarrow>
            buf = take (if n \<ge> 2 ^ 31 - 1 then 2 ^ 31 - 2 else n) val @ [CHR 0x00]))
   \<and> storage_length (CZString_str p len allocate) = len AND 0x3fffffff
   \<and> (m_cstr k = Some mem \<and> storage_policy k \<noteq> policy_bits noDuplication
        \<and> unat (storage_length k) \<le> length mem \<longrightarrow>
        (\<exists>k'. CZString_copy k = Inr k'
           \<and> m_cstr k' = Some (take (unat (storage_length k)) mem @ [CHR 0x00])
           \<and> storage_length k' = storage_length k))
   \<and> (unat len \<le> 2 ^ 31 - 6 \<and> unat len \<le> length val \<longrightarrow>
        duplicateAndPrefixStringValue val len
          = Inr (store_unsigned len @ take (unat len) val @ [CHR 0x00]))
   \<and> (2 ^ 31 - 6 < unat len \<longrightarrow> duplicateAndPrefixStringValue val len = Inl LogicError)"
proof (intro conjI impI)
  show "\<exists>buf. duplicateStringValue val n = Inr buf
       \<and> length buf = (if n \<ge> 2 ^ 31 - 1 then 2 ^ 31 - 2 else n) + 1
       \<and> (n \<le> length val \<longrightarrow>
            buf = take (if n \<ge> 2 ^ 31 - 1 then 2 ^ 31 - 2 else n) val @ [CHR 0x00])"
    using duplicateStringValue_enough [of n val]
    by (auto simp: duplicateStringValue_result simp del: replicate_Suc)
next
  show "storage_length (CZString_str p len allocate) = len AND 0x3fffffff"
    by (simp add: CZString_str_def storage_length_set word_bw_assocs)
next
  assume "m_cstr k = Some mem \<and> storage_policy k \<noteq> policy_bits noDuplication
        \<and> unat (storage_length k) \<le> length mem"
  then show "\<exists>k'. CZString_copy k = Inr k'
           \<and> m_cstr k' = Some (take (unat (storage_length k)) mem @ [CHR 0x00])
           \<and> storage_length k' = storage_length k"
    using CZString_copy_duplicates [of k mem] by blast
next
  assume "unat len \<le> 2 ^ 31 - 6 \<and> unat len \<le> length val"
  then show "duplicateAndPrefixStringValue val len
          = Inr (store_unsigned len @ take (unat len) val @ [CHR 0x00])"
    using duplicateAndPrefix_ok [of len val] by simp
next
  assume "2 ^ 31 - 6 < unat len"
  then show "duplicateAndPrefixStringValue val len = Inl LogicError"
    using duplicateAndPrefix_too_long [of len val] by simp
qed

text \<open>
  Claim C5 as stated fails: building a string value from \<open>2\<^sup>3\<^sup>1 - 5\<close> bytes raises a
  logic error, and \<open>duplicateStringValue\<close> copies an input of \<open>2\<^sup>3\<^sup>0\<close> bytes, one more
  than the claimed cap, without cutting it.
\<close>

theorem string_construction_raises_on_long_input:
  "duplicateAndPrefixStringValue (replicate (2 ^ 31 - 5) (CHR ''x'')) (2 ^ 31 - 5) = Inl LogicError
   \<and> duplicateStringValue (replicate (2 ^ 30) (CHR ''x'')) (2 ^ 30)
       = Inr (replicate (2 ^ 30) (CHR ''x'') @ [CHR 0x00])"
proof
  show "duplicateAndPrefixStringValue (replicate (2 ^ 31 - 5) (CHR ''x'')) (2 ^ 31 - 5) = Inl LogicError"
    by (rule duplicateAndPrefix_too_long) simp
next
  have "duplicateStringValue (replicate (2 ^ 30) (CHR ''x'')) (2 ^ 30)
       = Inr (take (if (2 ^ 30 :: nat) \<ge> 2147483647 then 2147483646 else 2 ^ 30)
               (replicate (2 ^ 30) (CHR ''x'')) @ [CHR 0x00])"
    by (rule duplicateStringValue_enough) simp
  then show "duplicateStringValue (replicate (2 ^ 30) (CHR ''x'')) (2 ^ 30)
       = Inr (replicate (2 ^ 30) (CHR ''x'') @ [CHR 0x00])"
    by simp
qed


theorem duplicate_length_limits_witness:
  "duplicateStringValue ''abc'' 3 = Inr (''abc'' @ [CHR 0x00])
   \<and> (\<exists>k'. CZString_copy (CZString_str (Some ''abc'') 3 duplicate) = Inr k'
          \<and> m_cstr k' = Some (''abc'' @ [CHR 0x00]) \<and> storage_length k' = 3)
   \<and> duplicateAndPrefixStringValue ''abc'' 3 = Inr (store_unsigned 3 @ ''abc'' @ [CHR 0x00])
   \<and> duplicateAndPrefixStringValue ''abc'' (2 ^ 31 - 5) = Inl LogicError"
proof -
  let ?k = "CZString_str (Some ''abc'') 3 duplicate"
  have k: "m_cstr ?k = Some ''abc''" "storage_policy ?k \<noteq> policy_bits noDuplication"
    "storage_length ?k = 3"
    by code_simp+
  have a: "duplicateStringValue ''abc'' 3 = Inr (''abc'' @ [CHR 0x00])"
    using duplicate_length_limits [where val = "''abc''" and n = 3 and len = 3 and k = ?k
        and mem = "''abc''"]
    by auto
  have b: "\<exists>k'. CZString_copy ?k = Inr k'
          \<and> m_cstr k' = Some (''abc'' @ [CHR 0x00]) \<and> storage_length k' = 3"
    using duplicate_length_limits [where val = "''abc''" and n = 3 and len = 3 and k = ?k
        and mem = "''abc''"] k
    by simp
  have c: "duplicateAndPrefixStringValue ''abc'' 3 = Inr (store_unsigned 3 @ ''abc'' @ [CHR 0x00])"
    using duplicate_length_limits [where val = "''abc''" and n = 3 and len = 3 and k = ?k
        and mem = "''abc''"]
    by simp
  have d: "duplicateAndPrefixStringValue ''abc'' (2 ^ 31 - 5) = Inl LogicError"
    using duplicate_length_limits [where val = "''abc''" and n = 3 and len = "2 ^ 31 - 5" and k = ?k
        and mem = "''abc''"]
    by simp
  from a b c d show ?thesis by blast
qed


section \<open>Properties of the conversions to double\<close>

lemma scaled_eq_0: "scaled s m e b = 0 \<longleftrightarrow> m = 0"
  by (simp add: scaled_def)

lemma d_eq_zero_iff: "d_eq d (Finite False 0 0) \<longleftrightarrow> isfinite d \<and> mant d = 0"
  by (cases d) (simp_all add: isfinite_def scaled_eq_0 scaled_def)

lemma overflow_to_cases:
  "overflow_to emax s m e = Finite s m e \<or> (overflow_to emax s m e = Infinity s \<and> m \<noteq> 0)"
  by (cases "m = 0") (simp_all add: overflow_to_def)

lemma round_to_cases:
  assumes "emin \<le> e" and "0 < p"
  shows "(\<exists>m' e'. round_to p emin emax s m e = Finite s m' e' \<and> e \<le> e' \<and> (m' = 0 \<longleftrightarrow> m = 0))
       \<or> (round_to p emin emax s m e = Infinity s \<and> m \<noteq> 0)"
proof (cases "max (bitlen (int m) - int p) (emin - e) \<le> 0")
  case True
  then have "round_to p emin emax s m e = overflow_to emax s m e"
    by (simp add: round_to_def)
  then show ?thesis
    using overflow_to_cases [of emax s m e] by auto
next
  case False
  define k where "k = max (bitlen (int m) - int p) (emin - e)"
  have kpos: "0 < k" using False unfolding k_def by linarith
  with assms have k: "k = bitlen (int m) - int p" unfolding k_def by linarith
  with kpos have "0 < bitlen (int m)" by simp
  then have mpos: "0 < int m" by (cases "m = 0") simp_all
  have "nat k \<le> nat (bitlen (int m) - 1)" using k assms(2) by simp
  then have "(2::int) ^ nat k \<le> 2 ^ nat (bitlen (int m) - 1)"
    by (intro power_increasing) simp_all
  also have "\<dots> \<le> int m" using bitlen_bounds [OF mpos] by simp
  finally have "2 ^ nat k \<le> m"
    by (metis of_nat_le_iff of_nat_numeral of_nat_power)
  then have q: "0 < m div 2 ^ nat k"
    by (simp add: div_greater_zero_iff)
  define q' where "q' = (if 2 ^ (nat k - 1) < m mod 2 ^ nat k
      \<or> (m mod 2 ^ nat k = 2 ^ (nat k - 1) \<and> odd (m div 2 ^ nat k))
    then m div 2 ^ nat k + 1 else m div 2 ^ nat k)"
  have q': "q' \<noteq> 0" using q by (simp add: q'_def)
  have "round_to p emin emax s m e = overflow_to emax s q' (e + k)"
    unfolding round_to_def Let_def k_def [symmetric] q'_def using kpos by simp
  then show ?thesis
    using overflow_to_cases [of emax s q' "e + k"] q' kpos mpos by auto
qed


lemma round_to_shape:
  assumes "emin \<le> e" and "0 < p" and "0 \<le> e"
  shows "int_shape (round_to p emin emax False m e) (m = 0)"
  using round_to_cases [OF assms(1,2), of emax False m] assms(3)
  by (auto simp: int_shape_def)

lemma double_of_int_shape:
  assumes "0 \<le> i"
  shows "int_shape (double_of_int i) (i = 0)"
  using round_to_shape [of "- 1074" 0 53 1024 "nat \<bar>i\<bar>"] assms
  by (simp add: double_of_int_def round_double_def)

lemma double_of_int_zero_iff: "d_eq (double_of_int i) (Finite False 0 0) \<longleftrightarrow> i = 0"
  using round_to_cases [of "- 1074" 0 53 1024 "i < 0" "nat \<bar>i\<bar>"]
  by (auto simp: double_of_int_def round_double_def d_eq_zero_iff isfinite_def)

lemma d_mul_two_shape:
  assumes "int_shape a z"
  shows "int_shape (d_mul a (Finite False 2 0)) z"
proof (cases a)
  case (Finite s m e)
  with assms have "\<not> s" "0 \<le> e" "(m = 0) = z" by (simp_all add: int_shape_def)
  then show ?thesis
    using round_to_shape [of "- 1074" e 53 1024 "m * 2"] Finite
    by (simp add: round_double_def)
qed (use assms in \<open>simp_all add: int_shape_def\<close>)

lemma d_add_shape:
  assumes "int_shape a y" and "int_shape b z"
  shows "int_shape (d_add a b) (y \<and> z)"
proof (cases a; cases b)
  fix s m e t n f
  assume a: "a = Finite s m e" and b: "b = Finite t n f"
  with assms have h: "\<not> s" "0 \<le> e" "(m = 0) = y" "\<not> t" "0 \<le> f" "(n = 0) = z"
    by (simp_all add: int_shape_def)
  define x where "x = scaled s m e (min e f) + scaled t n f (min e f)"
  have x0: "0 \<le> x" using h by (simp add: x_def scaled_def)
  have xz: "(x = 0) = (y \<and> z)"
    using h by (auto simp: x_def scaled_def add_nonneg_eq_0_iff)
  have "d_add a b = round_double False (nat \<bar>x\<bar>) (min e f)"
    using h x0 by (simp add: a b x_def Let_def)
  moreover have "int_shape (round_to 53 (- 1074) 1024 False (nat \<bar>x\<bar>) (min e f)) (nat \<bar>x\<bar> = 0)"
    using h by (intro round_to_shape) simp_all
  ultimately show ?thesis
    using xz x0 by (simp add: round_double_def)
qed (use assms in \<open>auto simp: int_shape_def\<close>)

lemma to_float_shape:
  assumes "int_shape a z"
  shows "int_shape (to_float a) z"
proof (cases a)
  case (Finite s m e)
  with assms have "\<not> s" "0 \<le> e" "(m = 0) = z" by (simp_all add: int_shape_def)
  then show ?thesis
    using round_to_shape [of "- 149" e 24 128 m] Finite
    by (simp add: to_float_def)
qed (use assms in \<open>simp_all add: int_shape_def to_float_def\<close>)

lemma int_shape_zero: "int_shape d z \<Longrightarrow> d_eq d (Finite False 0 0) = z"
  by (cases d) (auto simp: int_shape_def scaled_def)

lemma sint_eq_uint_small:
  fixes w :: uint64_t
  assumes "uint w < 2 ^ 63"
  shows "sint w = uint w"
proof -
  have "- (2 ^ 63) \<le> uint w" by (rule order_trans [of _ 0]) simp_all
  with assms show ?thesis
    by (simp add: sint_uint signed_take_bit_int_eq_self)
qed

lemma sint_half: "sint ((u :: uint64_t) div 2) = int (unat u div 2)"
proof -
  have "unat (u div 2) = unat u div 2" by (simp add: unat_div)
  moreover have "unat u < 2 ^ 64" using unsigned_less [of u] by simp
  ultimately have "unat (u div 2) < 2 ^ 63" by simp
  then have "uint (u div 2) < 2 ^ 63"
    by (metis of_nat_less_iff of_nat_numeral of_nat_power uint_nat)
  then have "sint (u div 2) = uint (u div 2)"
    by (rule sint_eq_uint_small)
  then show ?thesis
    by (simp add: unat_div uint_nat)
qed

lemma sint_low_bit: "sint ((u :: uint64_t) AND 1) = int (unat u mod 2)"
proof -
  have "u AND 1 = u mod 2"
    by (simp add: and_one_eq)
  moreover have "unat (u mod 2) = unat u mod 2"
    by (simp add: unat_mod)
  moreover have "uint (u mod 2) < 2 ^ 63"
    using \<open>unat (u mod 2) = unat u mod 2\<close>
    by (simp add: uint_nat)
  ultimately show ?thesis
    by (simp add: sint_eq_uint_small uint_nat)
qed

lemma asDouble_uint_zero_iff:
  "d_eq (to_float (integerToDouble_uint64 u)) (Finite False 0 0) \<longleftrightarrow> u = 0"
proof -
  have "int_shape (integerToDouble_uint64 u) (unat u div 2 = 0 \<and> unat u mod 2 = 0)"
    unfolding integerToDouble_uint64_def sint_half sint_low_bit
    using d_add_shape [OF d_mul_two_shape [OF double_of_int_shape [of "int (unat u div 2)"]]
        double_of_int_shape [of "int (unat u mod 2)"]]
    by simp
  then have "d_eq (to_float (integerToDouble_uint64 u)) (Finite False 0 0)
      = (unat u div 2 = 0 \<and> unat u mod 2 = 0)"
    by (intro int_shape_zero to_float_shape)
  also have "\<dots> = (unat u = 0)" by presburger
  finally show ?thesis by (simp add: unat_eq_zero)
qed



section \<open>Properties of \<open>Value::isConvertibleTo\<close>\<close>


lemma case_bool_Inr: "(case b of True \<Rightarrow> Inr True | False \<Rightarrow> Inr False) = Inr b"
  by (cases b) simp_all

lemmas convertible_defs =
  case_bool_Inr isConvertibleTo_def or_else_def and_then_def type_def isNumeric_def isDouble_def
  isInt_def isUInt_def asDouble_def asString_def

lemma convertible_array:
  "type v = arrayValue \<Longrightarrow>
   isConvertibleTo f g r v t = Inr (t = arrayValue \<or> t = nullValue \<and> m_value v = v_array [])"
  by (cases "m_value v"; cases t) (simp_all add: convertible_defs)

lemma convertible_object:
  "type v = objectValue \<Longrightarrow>
   isConvertibleTo f g r v t = Inr (t = objectValue \<or> t = nullValue \<and> m_value v = v_object [])"
  by (cases "m_value v"; cases t) (simp_all add: convertible_defs)

lemma convertible_numeric:
  "isNumeric v \<Longrightarrow>
   isConvertibleTo f g r v nullValue
     = Inr (case m_value v of v_int i \<Rightarrow> i = 0 | v_uint u \<Rightarrow> u = 0
            | v_real d \<Rightarrow> isfinite d \<and> mant d = 0 | _ \<Rightarrow> False)"
proof (cases "m_value v")
  case (v_real d)
  then show ?thesis by (simp add: convertible_defs d_eq_zero_iff)
qed (simp_all add: convertible_defs double_of_int_zero_iff asDouble_uint_zero_iff
       signed_eq_0_iff)

lemma convertible_bool:
  "type v = boolValue \<Longrightarrow> isConvertibleTo f g r v nullValue = Inr (m_value v = v_bool False)"
  by (cases "m_value v") (simp_all add: convertible_defs)

lemma convertible_string:
  "m_value v = v_string (Some mem) \<Longrightarrow>
   isConvertibleTo f g r v nullValue = Inr (asString f g r v = Inr [])"
  by (simp add: convertible_defs split: prod.splits)

lemma convertible_null:
  "type v = nullValue \<Longrightarrow> isConvertibleTo f g r v t = Inr True"
  by (cases "m_value v"; cases t) (simp_all add: convertible_defs)

lemma convertible_empty_static:
  "isConvertibleTo f g r (Value_of_type stringValue) nullValue = Inr True"
  by (simp add: convertible_defs Value_of_type_def initBasic_def decodePrefixedString_def
        strlen_def)

lemma load_unsigned_zeros:
  "load_unsigned [CHR 0x00, CHR 0x00, CHR 0x00, CHR 0x00, CHR 0x00] = 0"
  by (simp add: load_unsigned_def sizeof_unsigned_def)

lemma char_of_0: "char_of (0 :: nat) = CHR 0x00"
  by code_simp

lemma store0: "store_unsigned 0 = [CHR 0x00, CHR 0x00, CHR 0x00, CHR 0x00]"
  by (simp add: store_unsigned_def sizeof_unsigned_def upt_rec char_of_0)

lemma Value_of_empty_string:
  "Value_of_string [] =
     Inr (Value (v_string (Some [CHR 0x00, CHR 0x00, CHR 0x00, CHR 0x00, CHR 0x00])) True None 0 0)"
  by (simp add: Value_of_string_def initBasic_def 
        duplicateAndPrefixStringValue_def JSON_ASSERT_def new_char_array_def maxInt_def
        sizeof_unsigned_def store0 memcpy_def)

lemma convertible_empty_dup:
  "\<exists>s. Value_of_string [] = Inr s \<and> isConvertibleTo f g r s nullValue = Inr True"
  unfolding Value_of_empty_string
  by (simp add: convertible_defs decodePrefixedString_def load_unsigned_zeros)

text \<open>
  Claim C7. \<open>isConvertibleTo\<close> implements the compatibility matrix. An array (an
  object) is convertible to \<open>arrayValue\<close> (\<open>objectValue\<close>) and, exactly when it is
  empty, to \<open>nullValue\<close>, and to nothing else. An int, uint or real value is convertible
  to \<open>nullValue\<close> exactly when it is zero (for a real: one of the two zeros). A boolean
  is convertible to \<open>nullValue\<close> exactly when it is false, a string with a buffer
  exactly when \<open>asString\<close> is empty, so the empty string is, static or duplicated. Null
  is convertible to every variant. None of these calls raises.
\<close>

theorem isConvertibleTo_matrix:
  "(type v = arrayValue \<longrightarrow>
      isConvertibleTo f g r v t
        = Inr (t = arrayValue \<or> t = nullValue \<and> m_value v = v_array []))
   \<and> (type v = objectValue \<longrightarrow>
      isConvertibleTo f g r v t
        = Inr (t = objectValue \<or> t = nullValue \<and> m_value v = v_object []))
   \<and> (isNumeric v \<longrightarrow>
      isConvertibleTo f g r v nullValue
        = Inr (case m_value v of v_int i \<Rightarrow> i = 0 | v_uint u \<Rightarrow> u = 0
               | v_real d \<Rightarrow> isfinite d \<and> mant d = 0 | _ \<Rightarrow> False))
   \<and> (type v = boolValue \<longrightarrow>
      isConvertibleTo f g r v nullValue = Inr (m_value v = v_bool False))
   \<and> (m_value v = v_string (Some mem) \<longrightarrow>
      isConvertibleTo f g r v nullValue = Inr (asString f g r v = Inr []))
   \<and> isConvertibleTo f g r (Value_of_type stringValue) nullValue = Inr True
   \<and> (\<exists>s. Value_of_string [] = Inr s \<and> isConvertibleTo f g r s nullValue = Inr True)
   \<and> (type v = nullValue \<longrightarrow> isConvertibleTo f g r v t = Inr True)"
proof (intro conjI impI)
  show "isConvertibleTo f g r (Value_of_type stringValue) nullValue = Inr True"
    by (rule convertible_empty_static)
  show "\<exists>s. Value_of_string [] = Inr s \<and> isConvertibleTo f g r s nullValue = Inr True"
    by (rule convertible_empty_dup)
qed (erule convertible_array convertible_object convertible_numeric convertible_bool
      convertible_string convertible_null)+


theorem isConvertibleTo_matrix_witness:
  "isConvertibleTo always_delivers (printf_f (CHR ''.'')) (CHR ''.'') (Value_of_type arrayValue) nullValue = Inr True
   \<and> isConvertibleTo always_delivers (printf_f (CHR ''.'')) (CHR ''.'') (Value_of_type arrayValue) intValue = Inr False
   \<and> isConvertibleTo always_delivers (printf_f (CHR ''.'')) (CHR ''.'') (Value_of_int32 0) nullValue = Inr True
   \<and> isConvertibleTo always_delivers (printf_f (CHR ''.'')) (CHR ''.'') (Value_of_uint64 5) nullValue = Inr False
   \<and> isConvertibleTo always_delivers (printf_f (CHR ''.'')) (CHR ''.'') (Value_of_bool False) nullValue = Inr True
   \<and> isConvertibleTo always_delivers (printf_f (CHR ''.'')) (CHR ''.'') (Value_of_type nullValue) stringValue = Inr True"
proof (intro conjI)
  have arr: "type (Value_of_type arrayValue) = arrayValue"
    and arr_empty: "m_value (Value_of_type arrayValue) = v_array []"
    and zero: "isNumeric (Value_of_int32 0)" "m_value (Value_of_int32 0) = v_int 0"
    and five: "isNumeric (Value_of_uint64 5)" "m_value (Value_of_uint64 5) = v_uint 5"
    and no: "type (Value_of_bool False) = boolValue"
      "m_value (Value_of_bool False) = v_bool False"
    and null: "type (Value_of_type nullValue) = nullValue"
    by (simp_all add: Value_of_type_def Value_of_int32_def Value_of_uint64_def
          Value_of_bool_def initBasic_def type_def isNumeric_def isDouble_def)
  show "isConvertibleTo always_delivers (printf_f (CHR ''.'')) (CHR ''.'') (Value_of_type arrayValue) nullValue = Inr True"
    using isConvertibleTo_matrix [of "Value_of_type arrayValue" always_delivers "printf_f (CHR ''.'')" "CHR ''.''" nullValue, THEN conjunct1]
      arr arr_empty by simp
  show "isConvertibleTo always_delivers (printf_f (CHR ''.'')) (CHR ''.'') (Value_of_type arrayValue) intValue = Inr False"
    using isConvertibleTo_matrix [of "Value_of_type arrayValue" always_delivers "printf_f (CHR ''.'')" "CHR ''.''" intValue, THEN conjunct1]
      arr by simp
  show "isConvertibleTo always_delivers (printf_f (CHR ''.'')) (CHR ''.'') (Value_of_int32 0) nullValue = Inr True"
    using isConvertibleTo_matrix [of "Value_of_int32 0" always_delivers "printf_f (CHR ''.'')" "CHR ''.''",
        THEN conjunct2, THEN conjunct2, THEN conjunct1] zero by simp
  show "isConvertibleTo always_delivers (printf_f (CHR ''.'')) (CHR ''.'') (Value_of_uint64 5) nullValue = Inr False"
    using isConvertibleTo_matrix [of "Value_of_uint64 5" always_delivers "printf_f (CHR ''.'')" "CHR ''.''",
        THEN conjunct2, THEN conjunct2, THEN conjunct1] five by simp
  show "isConvertibleTo always_delivers (printf_f (CHR ''.'')) (CHR ''.'') (Value_of_bool False) nullValue = Inr True"
    using isConvertibleTo_matrix [of "Value_of_bool False" always_delivers "printf_f (CHR ''.'')" "CHR ''.''",
        THEN conjunct2, THEN conjunct2, THEN conjunct2, THEN conjunct1] no by simp
  show "isConvertibleTo always_delivers (printf_f (CHR ''.'')) (CHR ''.'') (Value_of_type nullValue) stringValue = Inr True"
    using isConvertibleTo_matrix [where v = "Value_of_type nullValue" and f = always_delivers and g = "printf_f (CHR ''.'')" and r = "CHR ''.''"
        and t = stringValue,
        THEN conjunct2, THEN conjunct2, THEN conjunct2, THEN conjunct2, THEN conjunct2,
        THEN conjunct2, THEN conjunct2] null by simp
qed


section \<open>Properties of \<open>Value::isInt\<close> and \<open>Value::asInt\<close>\<close>


lemma sint_limits: "sint minInt = - 2147483648" "sint maxInt = 2147483647"
  "uint maxInt = 2147483647"
  by (simp_all add: minInt_def maxInt_def)

lemma double_of_int_exact:
  assumes "\<bar>i\<bar> < 2 ^ 53"
  shows "double_of_int i = Finite (i < 0) (nat \<bar>i\<bar>) 0"
proof -
  have "bitlen (int (nat \<bar>i\<bar>)) \<le> 53"
    using assms by (simp add: bitlen_le_iff_power)
  then have k: "max (bitlen (int (nat \<bar>i\<bar>)) - int 53) (- 1074 - 0) \<le> 0"
    by simp
  have "nat \<bar>i\<bar> < 2 ^ 53" using assms
    by (metis nat_less_numeral_power_cancel_iff)
  also have "(2::nat) ^ 53 \<le> 2 ^ 1024" by (intro power_increasing) simp_all
  finally have "\<not> (2::nat) ^ nat 1024 \<le> nat \<bar>i\<bar> * 2 ^ nat 0" by simp
  then have "overflow_to 1024 (i < 0) (nat \<bar>i\<bar>) 0 = Finite (i < 0) (nat \<bar>i\<bar>) 0"
    unfolding overflow_to_def by (simp only: simp_thms if_False)
  then show ?thesis
    unfolding double_of_int_def round_double_def round_to_def Let_def
    using k by (simp only: if_True)
qed

lemma sint_ucast_int:
  fixes i :: int64_t
  assumes "- 2147483648 \<le> sint i" and "sint i \<le> 2147483647"
  shows "sint (ucast i :: int32_t) = sint i"
proof -
  have "sint (ucast i :: int32_t) = signed_take_bit 31 (uint i)"
    by (simp add: signed_ucast_eq)
  also have "uint i = take_bit 64 (sint i)"
    using uint_sint [of i] by simp
  also have "signed_take_bit 31 (take_bit 64 (sint i)) = signed_take_bit 31 (sint i)"
    by (simp add: signed_take_bit_take_bit)
  also have "\<dots> = sint i"
    using assms by (intro signed_take_bit_int_eq_self) simp_all
  finally show ?thesis .
qed

lemma sint_ucast_uint:
  fixes u :: uint64_t
  assumes "uint u \<le> 2147483647"
  shows "sint (ucast u :: int32_t) = uint u"
proof -
  have "sint (ucast u :: int32_t) = signed_take_bit 31 (uint u)"
    by (simp add: signed_ucast_eq)
  also have "\<dots> = uint u"
  proof (rule signed_take_bit_int_eq_self)
    show "- (2 ^ 31) \<le> uint u" by (rule order_trans [of _ 0]) simp_all
    show "uint u < 2 ^ 31" using assms by simp
  qed
  finally show ?thesis .
qed

lemma sint_word_of_int32:
  assumes "- 2147483648 \<le> i" and "i \<le> 2147483647"
  shows "sint (word_of_int i :: int32_t) = i"
  using assms by (simp add: signed_of_int signed_take_bit_int_eq_self)


lemma d_le_Finite:
  "d_le (Finite s m e) (Finite t n f)
     = (scaled s m e (min e f) \<le> scaled t n f (min e f))"
  by (auto simp: d_le_def)

lemma div_mult_eq_iff:
  fixes a :: int
  shows "(a div b * b = a) = (a mod b = 0)"
proof -
  have "a div b * b = a - a mod b"
    by (simp add: minus_mod_eq_div_mult)
  then show ?thesis by simp
qed

lemma int_mod_pow_0: "(int m mod 2 ^ k = 0) = (m mod 2 ^ k = 0)"
proof -
  have "int m mod 2 ^ k = int (m mod 2 ^ k)"
    by (simp add: zmod_int)
  then show ?thesis by simp
qed

lemma scaled_signed: "scaled s m e b = (if s then - (int m * 2 ^ nat (e - b)) else int m * 2 ^ nat (e - b))"
  by (simp add: scaled_def)

lemma InRange_int32:
  "InRange d (sint minInt) (sint maxInt)
     = (d_ge d (Finite True 2147483648 0) \<and> d_le d (Finite False 2147483647 0))"
  by (simp add: InRange_def sint_limits double_of_int_exact)

lemma real_in_range_nonneg_expo:
  assumes "d_le (Finite True 2147483648 0) (Finite s m e)"
    and "d_le (Finite s m e) (Finite False 2147483647 0)" and "0 \<le> e"
  shows "\<exists>t. double_truncate (Finite s m e) = Some t \<and> - 2147483648 \<le> t \<and> t \<le> 2147483647
           \<and> d_eq (Finite (t < 0) (nat \<bar>t\<bar>) 0) (Finite s m e) = IsIntegral (Finite s m e)"
proof -
  define v where "v = (if s then - (int m * 2 ^ nat e) else int m * 2 ^ nat e)"
  have mn: "min 0 e = 0" "min e 0 = 0" using assms(3) by simp_all
  have sv: "scaled s m e 0 = v" by (simp add: scaled_signed v_def)
  have "- 2147483648 \<le> v"
    using assms(1) unfolding d_le_Finite mn sv by (simp add: scaled_signed)
  moreover have "v \<le> 2147483647"
    using assms(2) unfolding d_le_Finite mn sv by (simp add: scaled_signed)
  moreover have "double_truncate (Finite s m e) = Some v"
    using assms(3) by (simp add: double_truncate_def v_def)
  moreover have "scaled (v < 0) (nat \<bar>v\<bar>) 0 0 = v"
    by (simp add: scaled_signed)
  then have "d_eq (Finite (v < 0) (nat \<bar>v\<bar>) 0) (Finite s m e)"
    by (simp add: mn sv)
  moreover have "IsIntegral (Finite s m e)"
    using assms(3) by (simp add: IsIntegral_def modf_def scaled_def)
  ultimately show ?thesis by blast
qed

lemma real_in_range_neg_expo:
  assumes "d_le (Finite True 2147483648 0) (Finite s m e)"
    and "d_le (Finite s m e) (Finite False 2147483647 0)" and "\<not> 0 \<le> e"
  shows "\<exists>t. double_truncate (Finite s m e) = Some t \<and> - 2147483648 \<le> t \<and> t \<le> 2147483647
           \<and> d_eq (Finite (t < 0) (nat \<bar>t\<bar>) 0) (Finite s m e) = IsIntegral (Finite s m e)"
proof -
  define k where "k = nat (- e)"
  define q where "q = int m div 2 ^ k"
  define t where "t = (if s then - q else q)"
  have mn: "min e 0 = e" "min 0 e = e" and ek: "nat (0 - e) = k" "nat (e - e) = 0"
    using assms(3) by (simp_all add: k_def)
  have sm: "scaled s m e e = (if s then - int m else int m)"
    by (simp add: scaled_signed)
  have lo: "scaled True 2147483648 0 e = - (2147483648 * 2 ^ k)"
    and hi: "scaled False 2147483647 0 e = 2147483647 * 2 ^ k"
    unfolding scaled_signed ek by simp_all
  have le1: "- (2147483648 * 2 ^ k) \<le> (if s then - int m else int m)"
    using assms(1) unfolding d_le_Finite mn sm lo .
  have le2: "(if s then - int m else int m) \<le> 2147483647 * 2 ^ k"
    using assms(2) unfolding d_le_Finite mn sm hi .
  have q0: "0 \<le> q"
    by (simp add: q_def pos_imp_zdiv_nonneg_iff)
  have tr: "double_truncate (Finite s m e) = Some t"
    using assms(3) by (simp add: double_truncate_def t_def q_def k_def)
  have bounds: "- 2147483648 \<le> t \<and> t \<le> 2147483647"
  proof (cases s)
    case True
    with le1 have "int m \<le> 2147483648 * 2 ^ k" by simp
    then have "int m div 2 ^ k \<le> 2147483648 * 2 ^ k div 2 ^ k"
      by (rule zdiv_mono1) simp
    then have "q \<le> 2147483648" by (simp add: q_def)
    with True q0 show ?thesis by (simp add: t_def)
  next
    case False
    with le2 have "int m \<le> 2147483647 * 2 ^ k" by simp
    then have "int m div 2 ^ k \<le> 2147483647 * 2 ^ k div 2 ^ k"
      by (rule zdiv_mono1) simp
    then have "q \<le> 2147483647" by (simp add: q_def)
    with False q0 show ?thesis by (simp add: t_def)
  qed
  have st: "scaled (t < 0) (nat \<bar>t\<bar>) 0 e = t * 2 ^ k"
    unfolding scaled_signed ek by simp
  have "d_eq (Finite (t < 0) (nat \<bar>t\<bar>) 0) (Finite s m e)
      = (t * 2 ^ k = (if s then - int m else int m))"
    by (simp only: d_eq.simps mn st sm)
  also have "\<dots> = (q * 2 ^ k = int m)"
    by (cases s) (simp_all add: t_def)
  also have "\<dots> = (int m mod 2 ^ k = 0)"
    unfolding q_def by (rule div_mult_eq_iff)
  also have "\<dots> = (m mod 2 ^ k = 0)"
    by (rule int_mod_pow_0)
  also have "\<dots> = IsIntegral (Finite s m e)"
    using assms(3) by (simp add: IsIntegral_def modf_def scaled_def k_def)
  finally show ?thesis
    using tr bounds by blast
qed

lemma real_in_range:
  assumes "InRange d (sint minInt) (sint maxInt)"
  shows "\<exists>t. double_truncate d = Some t \<and> - 2147483648 \<le> t \<and> t \<le> 2147483647
           \<and> d_eq (Finite (t < 0) (nat \<bar>t\<bar>) 0) d = IsIntegral d"
proof (cases d)
  case (Finite s m e)
  have rng: "d_le (Finite True 2147483648 0) (Finite s m e)"
    "d_le (Finite s m e) (Finite False 2147483647 0)"
    using assms by (simp_all add: InRange_int32 Finite d_ge_def)
  show ?thesis
    unfolding Finite
    using real_in_range_nonneg_expo [OF rng] real_in_range_neg_expo [OF rng]
    by (cases "0 \<le> e") simp_all
next
  case (Infinity s)
  with assms show ?thesis
    by (cases s) (simp_all add: InRange_int32 d_ge_def d_le_def)
next
  case NaN
  with assms show ?thesis
    by (simp add: InRange_int32 d_ge_def d_le_def)
qed


lemma isInt_int: "m_value v = v_int i \<Longrightarrow> isInt v = asInt_lossless v"
  using sint_ucast_int [of i]
  by (auto simp: isInt_def asInt_def asInt_lossless_def represents_def JSON_ASSERT_def
        sint_limits)

lemma isInt_uint: "m_value v = v_uint u \<Longrightarrow> isInt v = asInt_lossless v"
  using sint_ucast_uint [of u]
  by (auto simp: isInt_def asInt_def asInt_lossless_def represents_def JSON_ASSERT_def
        sint_limits)

lemma isInt_real:
  assumes "m_value v = v_real d"
  shows "isInt v = asInt_lossless v \<and> asInt v \<noteq> Inl UndefinedBehaviour"
proof (cases "InRange d (sint minInt) (sint maxInt)")
  case True
  then obtain t where t: "double_truncate d = Some t" "- 2147483648 \<le> t" "t \<le> 2147483647"
    "d_eq (Finite (t < 0) (nat \<bar>t\<bar>) 0) d = IsIntegral d"
    using real_in_range by blast
  have conv: "int32_of_double d = Some (word_of_int t)"
    using t(1-3) by (simp add: int32_of_double_def)
  have "\<bar>t\<bar> < 2 ^ 53" using t(2,3) by simp
  then have again: "double_of_int (sint (word_of_int t :: int32_t)) = Finite (t < 0) (nat \<bar>t\<bar>) 0"
    using t(2,3) by (simp add: sint_word_of_int32 double_of_int_exact)
  have "asInt v = Inr (word_of_int t)"
    using assms True conv by (simp add: asInt_def JSON_ASSERT_def)
  moreover have "isInt v = IsIntegral d"
    using assms True by (simp add: isInt_def InRange_def)
  ultimately show ?thesis
    using assms t(4) again by (simp add: asInt_lossless_def represents_def)
next
  case False
  then have "asInt v = Inl LogicError"
    using assms by (simp add: asInt_def JSON_ASSERT_def)
  moreover have "\<not> isInt v"
    using assms False by (auto simp: isInt_def InRange_def)
  ultimately show ?thesis
    by (simp add: asInt_lossless_def)
qed

text \<open>
  Claim C3, as amended. For a value of any variant but boolean and null, \<open>isInt(v)\<close> is
  true exactly when \<open>asInt(v)\<close> returns, without raising, a 32-bit value that represents
  \<open>v\<close> without loss (for a string, an array or an object neither holds: \<open>asInt\<close> raises).
  For a boolean and for null \<open>isInt(v)\<close> is false although \<open>asInt(v)\<close> returns the 1 or
  0 that stands for \<open>v\<close>. \<open>asInt\<close> never converts a double that \<open>int32_t\<close> cannot hold.
\<close>

theorem isInt_iff_asInt_lossless:
  "(type v \<noteq> boolValue \<and> type v \<noteq> nullValue \<longrightarrow> isInt v = asInt_lossless v)
   \<and> (type v = boolValue \<or> type v = nullValue \<longrightarrow>
        \<not> isInt v \<and> (\<exists>r. asInt v = Inr r \<and> represents v r))
   \<and> asInt v \<noteq> Inl UndefinedBehaviour"
proof (cases "m_value v")
  case (v_int i)
  then show ?thesis
    using isInt_int [OF v_int]
    by (simp add: type_def asInt_def JSON_ASSERT_def)
next
  case (v_uint u)
  then show ?thesis
    using isInt_uint [OF v_uint]
    by (simp add: type_def asInt_def JSON_ASSERT_def)
next
  case (v_real d)
  then show ?thesis
    using isInt_real [OF v_real] by (simp add: type_def)
qed (simp_all add: type_def isInt_def asInt_def asInt_lossless_def represents_def)

text \<open>
  Claim C3 as stated fails at the boolean \<open>true\<close> and at null: \<open>isInt\<close> is false, and
  \<open>asInt\<close> returns 1 and 0 without raising.
\<close>

theorem isInt_false_for_bool_and_null:
  "\<not> isInt (Value_of_bool True) \<and> asInt (Value_of_bool True) = Inr 1
   \<and> \<not> (isInt (Value_of_bool True) = asInt_lossless (Value_of_bool True))
   \<and> \<not> isInt (Value_of_type nullValue) \<and> asInt (Value_of_type nullValue) = Inr 0
   \<and> \<not> (isInt (Value_of_type nullValue) = asInt_lossless (Value_of_type nullValue))"
  by (simp add: Value_of_bool_def Value_of_type_def initBasic_def isInt_def asInt_def
        asInt_lossless_def represents_def)

theorem isInt_iff_asInt_lossless_witness:
  "isInt (Value_of_double (Finite False 5 (- 1))) = asInt_lossless (Value_of_double (Finite False 5 (- 1)))
   \<and> asInt (Value_of_double (Finite False 5 (- 1))) = Inr 2
   \<and> \<not> isInt (Value_of_double (Finite False 5 (- 1)))
   \<and> isInt (Value_of_int64 (- 2147483648)) = asInt_lossless (Value_of_int64 (- 2147483648))
   \<and> isInt (Value_of_int64 (- 2147483648))
   \<and> \<not> isInt (Value_of_bool False)
   \<and> (\<exists>r. asInt (Value_of_bool False) = Inr r \<and> represents (Value_of_bool False) r)"
proof -
  let ?d = "Value_of_double (Finite False 5 (- 1))"
  let ?i = "Value_of_int64 (- 2147483648)"
  let ?b = "Value_of_bool False"
  have ty: "type ?d \<noteq> boolValue \<and> type ?d \<noteq> nullValue"
    "type ?i \<noteq> boolValue \<and> type ?i \<noteq> nullValue"
    "type ?b = boolValue \<or> type ?b = nullValue"
    by (simp_all add: Value_of_double_def Value_of_int64_def Value_of_bool_def initBasic_def
          type_def)
  have tr: "int32_of_double (Finite False 5 (- 1)) = Some 2"
    by (simp add: int32_of_double_def double_truncate_def)
  have rng: "InRange (Finite False 5 (- 1)) (sint minInt) (sint maxInt)"
    by (simp add: InRange_int32 d_ge_def d_le_Finite scaled_def)
  have "asInt ?d = Inr 2"
    using tr rng by (simp add: asInt_def Value_of_double_def initBasic_def JSON_ASSERT_def)
  moreover have "\<not> isInt ?d"
    by (simp add: isInt_def Value_of_double_def initBasic_def IsIntegral_def modf_def scaled_def)
  moreover have "isInt ?i"
    by (simp add: isInt_def Value_of_int64_def initBasic_def sint_limits)
  moreover note isInt_iff_asInt_lossless [of ?d, THEN conjunct1, rule_format, OF ty(1)]
    isInt_iff_asInt_lossless [of ?i, THEN conjunct1, rule_format, OF ty(2)]
    isInt_iff_asInt_lossless [of ?b, THEN conjunct2, THEN conjunct1, rule_format, OF ty(3)]
  ultimately show ?thesis by blast
qed


section \<open>Properties of the formatting of doubles\<close>


lemma length_snprintf_write: "length (snprintf_write buffer out) = length buffer"
  by (cases buffer) (simp_all add: snprintf_write_def Let_def)

lemma snprintf_delivers:
  assumes "int (length out) \<le> INT_MAX" and "snprintf_fail (length buffer) out = None"
  shows "snprintf snprintf_fail buffer out = (snprintf_write buffer out, word_of_nat (length out))"
  using assms by (simp add: snprintf_def)

lemma sint_length:
  assumes "int (length out) \<le> INT_MAX"
  shows "sint (word_of_nat (length out) :: int32_t) = int (length out)"
proof -
  have "sint (word_of_int k :: int32_t) = k" if "0 \<le> k" and "k \<le> 2147483647" for k
    using that by (simp add: signed_of_int signed_take_bit_int_eq_self)
  from this [of "int (length out)"] show ?thesis
    using assms by (simp add: INT_MAX_def)
qed

lemma snprintf_loop_fits:
  assumes "length out < length buffer" and "int (length out) \<le> INT_MAX"
    and "snprintf_fail (length buffer) out = None"
  shows "snprintf_loop snprintf_fail out buffer = Inr out"
proof -
  have ne: "buffer \<noteq> []" using assms(1) by auto
  have "length out \<le> length buffer - 1" using assms(1) by simp
  then have k: "min (length out) (length buffer - 1) = length out" by simp
  have w: "snprintf_write buffer out = out @ CHR 0x00 # drop (length out + 1) buffer"
    unfolding snprintf_write_def Let_def k using ne by simp
  have "snprintf_loop snprintf_fail out buffer
      = Inr (resize (snprintf_write buffer out) (length out))"
    using assms(1)
    by (simp add: snprintf_loop.simps [of snprintf_fail out buffer]
          snprintf_delivers [where snprintf_fail = snprintf_fail and buffer = buffer, OF assms(2,3)] sint_length [OF assms(2)] Let_def JSON_ASSERT_def
          length_snprintf_write)
  also have "resize (snprintf_write buffer out) (length out) = out"
    unfolding w by (simp add: resize_def)
  finally show ?thesis .
qed

lemma snprintf_loop_result:
  assumes "int (length out) \<le> INT_MAX" and "\<forall>n. snprintf_fail n out = None"
  shows "snprintf_loop snprintf_fail out buffer = Inr out"
proof (cases "length out < length buffer")
  case True
  then show ?thesis
    using assms by (simp add: snprintf_loop_fits)
next
  case False
  have none: "snprintf_fail (length buffer) out = None"
    using assms(2) by simp
  have "snprintf_loop snprintf_fail out buffer
      = snprintf_loop snprintf_fail out (resize (snprintf_write buffer out) (length out + 1))"
    using False
    by (simp add: snprintf_loop.simps [of snprintf_fail out buffer]
          snprintf_delivers [where snprintf_fail = snprintf_fail and buffer = buffer, OF assms(1) none] sint_length [OF assms(1)] Let_def JSON_ASSERT_def
          length_snprintf_write)
  also have "\<dots> = Inr out"
    using assms by (simp add: snprintf_loop_fits resize_def length_snprintf_write)
  finally show ?thesis .
qed

lemma snprintf_loop_negative:
  assumes "sint (snd (snprintf snprintf_fail buffer out)) < 0"
  shows "snprintf_loop snprintf_fail out buffer = Inl LogicError"
  using assms
  by (simp add: snprintf_loop.simps [of snprintf_fail out buffer] Let_def JSON_ASSERT_def)

lemma is_digit_digit_char: "n < 10 \<Longrightarrow> is_digit (digit_char n)"
  by (simp add: is_digit_def digit_char_def of_char_of)

lemma digits_of_digits: "list_all is_digit (digits_of n) \<and> digits_of n \<noteq> []"
proof (induction n rule: digits_of.induct)
  case (1 n)
  show ?case
  proof (cases "n < 10")
    case True
    then have "digits_of n = [digit_char n]"
      by (simp add: digits_of.simps [of n])
    with True show ?thesis
      by (simp add: is_digit_digit_char)
  next
    case False
    then have "digits_of n = digits_of (n div 10) @ [digit_char (n mod 10)]"
      by (simp add: digits_of.simps [of n])
    with False "1.IH" show ?thesis
      by (simp add: is_digit_digit_char)
  qed
qed

lemma frac_digits_digits: "list_all is_digit (frac_digits p x) \<and> length (frac_digits p x) = p"
  by (induction p arbitrary: x) (simp_all add: is_digit_digit_char)

lemma digit_chars:
  assumes "is_digit c"
  shows "c \<noteq> CHR '',''" "c \<noteq> CHR ''.''" "c \<noteq> CHR ''e''" "c \<noteq> CHR ''-''"
  using assms by (auto simp: is_digit_def)

lemma digits_no_marks:
  assumes "list_all is_digit ds"
  shows "CHR '','' \<notin> set ds" "CHR ''.'' \<notin> set ds" "CHR ''e'' \<notin> set ds"
  using assms by (induction ds) (auto dest: digit_chars)

lemma fixNumericLocale_id: "CHR '','' \<notin> set buf \<Longrightarrow> fixNumericLocale buf = buf"
  by (induction buf) (auto simp: fixNumericLocale_def)

lemma fixNumericLocale_append:
  "fixNumericLocale (xs @ ys) = fixNumericLocale xs @ fixNumericLocale ys"
  by (simp add: fixNumericLocale_def)



lemma strip_zeros_snoc:
  "strip_zeros (rs @ [c]) = (if c = CHR ''0'' then strip_zeros rs else rs @ [c])"
  by (simp add: strip_zeros_def)

lemma fixZeros_fraction:
  assumes "pre \<noteq> []" and "list_all is_digit (f0 # rest)" and "precision \<noteq> 0"
  shows "fixZerosInTheEnd (pre @ CHR ''.'' # f0 # rest @ junk) (length pre + 2 + length rest)
           precision
         = length pre + 2 + length (strip_zeros rest)"
  using assms(2)
proof (induction rest arbitrary: junk rule: rev_induct)
  case Nil
  have at: "(pre @ CHR ''.'' # f0 # junk) ! (length pre + 1) = f0"
    "(pre @ CHR ''.'' # f0 # junk) ! length pre = CHR ''.''"
    by (simp_all add: nth_append)
  have "length pre \<noteq> 0" using assms(1) by simp
  then show ?case
    using assms(3) at by (simp add: strip_zeros_def)
next
  case (snoc c rs)
  define buf where "buf = pre @ CHR ''.'' # f0 # (rs @ [c]) @ junk"
  define n where "n = length pre + 2 + length rs"
  have at: "buf ! n = c"
    by (simp add: buf_def n_def nth_append)
  have prev: "buf ! (n - 1) = last (f0 # rs)"
    by (cases rs rule: rev_cases) (simp_all add: buf_def n_def nth_append)
  have "is_digit (last (f0 # rs))"
    using snoc.prems by (cases rs rule: rev_cases) simp_all
  then have nodot: "buf ! (n - 1) \<noteq> CHR ''.''"
    unfolding prev by (rule digit_chars)
  have ih: "fixZerosInTheEnd buf n precision = length pre + 2 + length (strip_zeros rs)"
    using snoc.prems snoc.IH [of "[c] @ junk"] by (simp add: buf_def n_def)
  have step: "fixZerosInTheEnd buf (Suc n) precision
      = (if c \<noteq> CHR ''0'' then Suc n else fixZerosInTheEnd buf n precision)"
    using at nodot by simp
  have "length pre + 2 + length (rs @ [c]) = Suc n"
    by (simp add: n_def)
  then show ?case
    using step ih unfolding buf_def [symmetric]
    by (simp add: strip_zeros_snoc n_def)
qed

lemma fixZeros_no_places:
  assumes "pre \<noteq> []"
  shows "fixZerosInTheEnd (pre @ ''.0'') (length pre + 2) 0 = length pre"
proof -
  have at: "(pre @ ''.0'') ! (length pre + 1) = CHR ''0''"
    "(pre @ ''.0'') ! length pre = CHR ''.''"
    by (simp_all add: nth_append)
  have "length pre \<noteq> 0" using assms by simp
  then show ?thesis
    using at by simp
qed


lemma length_strip_zeros: "length (strip_zeros rs) \<le> length rs"
  using length_dropWhile_le [of "\<lambda>c. c = CHR ''0''" "rev rs"]
  by (simp add: strip_zeros_def)

lemma take_strip_zeros: "take (length (strip_zeros rs)) rs = strip_zeros rs"
proof (induction rs rule: rev_induct)
  case Nil
  show ?case by (simp add: strip_zeros_def)
next
  case (snoc c rs)
  then show ?case
    using length_strip_zeros [of rs] by (simp add: strip_zeros_snoc)
qed

lemma printf_f_Finite:
  "printf_f radix prec (Finite s m e) =
     ((if s then ''-'' else []) @
      digits_of (fixed_scaled (if prec < 0 then 6 else nat prec) m e
                 div 10 ^ (if prec < 0 then 6 else nat prec))) @
     (if (if prec < 0 then 6 else nat prec) = 0 then []
      else radix # frac_digits (if prec < 0 then 6 else nat prec)
                     (fixed_scaled (if prec < 0 then 6 else nat prec) m e
                      mod 10 ^ (if prec < 0 then 6 else nat prec)))"
  by (simp add: printf_f_def Let_def)

lemma sign_digits_no_marks:
  assumes "list_all is_digit ip"
  shows "CHR '','' \<notin> set ((if s then ''-'' else []) @ ip)"
    "CHR ''.'' \<notin> set ((if s then ''-'' else []) @ ip)"
    "CHR ''e'' \<notin> set ((if s then ''-'' else []) @ ip)"
  using digits_no_marks [OF assms] by simp_all

lemma valueToString_places:
  assumes "radix = CHR ''.'' \<or> radix = CHR '',''" and "precision \<noteq> 0"
    and "int (length (printf_f radix (sint precision) (Finite s m e))) \<le> INT_MAX"
    and "\<forall>n. snprintf_fail n (printf_f radix (sint precision) (Finite s m e)) = None"
  shows "\<exists>pre f0 rest.
           printf_f (CHR ''.'') (sint precision) (Finite s m e) = pre @ CHR ''.'' # f0 # rest
           \<and> pre \<noteq> [] \<and> CHR ''.'' \<notin> set pre \<and> list_all is_digit (f0 # rest)
           \<and> valueToString_double snprintf_fail g radix (Finite s m e) usf precision decimalPlaces
               = Inr (pre @ CHR ''.'' # f0 # strip_zeros rest)"
proof -
  define P where "P = (if sint precision < 0 then 6 else nat (sint precision))"
  define pre where "pre = (if s then ''-'' else []) @ digits_of (fixed_scaled P m e div 10 ^ P)"
  define fr where "fr = frac_digits P (fixed_scaled P m e mod 10 ^ P)"
  have "sint precision \<noteq> 0" using assms(2) by (simp add: signed_eq_0_iff)
  then have P: "P \<noteq> 0" by (simp add: P_def)
  have out: "printf_f c (sint precision) (Finite s m e) = pre @ c # fr" for c
    unfolding printf_f_Finite P_def [symmetric] pre_def fr_def using P by simp
  have ip: "list_all is_digit (digits_of (fixed_scaled P m e div 10 ^ P))"
    "digits_of (fixed_scaled P m e div 10 ^ P) \<noteq> []"
    using digits_of_digits by simp_all
  have pre: "pre \<noteq> []" "CHR '','' \<notin> set pre" "CHR ''.'' \<notin> set pre"
    unfolding pre_def using sign_digits_no_marks [OF ip(1), of s] ip(2) by simp_all
  have frd: "list_all is_digit fr" "length fr = P"
    unfolding fr_def using frac_digits_digits by simp_all
  then obtain f0 rest where fr: "fr = f0 # rest"
    using P by (cases fr) auto
  have "fixNumericLocale [radix] = [CHR ''.'']"
    using assms(1) by (auto simp: fixNumericLocale_def)
  moreover have "fixNumericLocale pre = pre" "fixNumericLocale fr = fr"
    using pre(2) digits_no_marks(1) [OF frd(1)] by (simp_all add: fixNumericLocale_id)
  moreover have "fixNumericLocale (pre @ radix # fr)
      = fixNumericLocale pre @ fixNumericLocale [radix] @ fixNumericLocale fr"
    by (simp add: fixNumericLocale_def)
  ultimately have loc: "fixNumericLocale (pre @ radix # fr) = pre @ CHR ''.'' # fr"
    by simp
  define buf where "buf = pre @ CHR ''.'' # fr"
  have l: "fixNumericLocale (printf_f radix (sint precision) (Finite s m e)) = buf"
    unfolding out loc buf_def ..
  have dot: "CHR ''.'' \<in> set buf" by (simp add: buf_def)
  have "fixZerosInTheEnd (pre @ CHR ''.'' # f0 # rest @ []) (length pre + 2 + length rest)
              precision = length pre + 2 + length (strip_zeros rest)"
    using pre(1) frd(1) assms(2) unfolding fr by (rule fixZeros_fraction)
  then have fz: "fixZerosInTheEnd buf (length buf) precision
      = length pre + 2 + length (strip_zeros rest)"
    by (simp add: buf_def fr)
  have loop: "snprintf_loop snprintf_fail (printf_f radix (sint precision) (Finite s m e))
      (replicate 36 (CHR 0x00)) = Inr (printf_f radix (sint precision) (Finite s m e))"
    using assms(3,4) by (rule snprintf_loop_result)
  have "valueToString_double snprintf_fail g radix (Finite s m e) usf precision decimalPlaces
      = Inr (take (fixZerosInTheEnd buf (length buf) precision) buf)"
    using dot
    by (simp add: valueToString_double_def isfinite_def loop l Let_def)
  also have "take (fixZerosInTheEnd buf (length buf) precision) buf
      = pre @ CHR ''.'' # f0 # strip_zeros rest"
    unfolding fz by (simp add: buf_def fr take_strip_zeros)
  finally show ?thesis
    using out [of "CHR ''.''"] pre(1,3) frd(1) unfolding fr by blast
qed

lemma valueToString_no_places:
  assumes "radix = CHR ''.'' \<or> radix = CHR '',''"
    and "int (length (printf_f radix 0 (Finite s m e))) \<le> INT_MAX"
    and "\<forall>n. snprintf_fail n (printf_f radix 0 (Finite s m e)) = None"
  shows "valueToString_double snprintf_fail g radix (Finite s m e) usf 0 decimalPlaces
           = Inr (printf_f radix 0 (Finite s m e))
         \<and> CHR ''.'' \<notin> set (printf_f radix 0 (Finite s m e))
         \<and> CHR ''e'' \<notin> set (printf_f radix 0 (Finite s m e))"
proof -
  define pre where "pre = (if s then ''-'' else []) @ digits_of (fixed_scaled 0 m e div 10 ^ 0)"
  have out: "printf_f radix 0 (Finite s m e) = pre"
    unfolding printf_f_Finite pre_def by simp
  have ip: "list_all is_digit (digits_of (fixed_scaled 0 m e div 10 ^ 0))"
    "digits_of (fixed_scaled 0 m e div 10 ^ 0) \<noteq> []"
    using digits_of_digits by simp_all
  have pre: "pre \<noteq> []" "CHR '','' \<notin> set pre" "CHR ''.'' \<notin> set pre" "CHR ''e'' \<notin> set pre"
    unfolding pre_def using sign_digits_no_marks [OF ip(1), of s] ip(2) by simp_all
  define buf where "buf = pre @ ''.0''"
  have "fixZerosInTheEnd (pre @ ''.0'') (length pre + 2) 0 = length pre"
    using pre(1) by (rule fixZeros_no_places)
  then have fz: "fixZerosInTheEnd buf (length buf) 0 = length pre"
    by (simp add: buf_def)
  have l: "fixNumericLocale pre = pre"
    using pre(2) by (rule fixNumericLocale_id)
  have loop: "snprintf_loop snprintf_fail pre (replicate 36 (CHR 0x00)) = Inr pre"
    using assms(2,3) unfolding out by (rule snprintf_loop_result)
  have "valueToString_double snprintf_fail g radix (Finite s m e) usf 0 decimalPlaces
      = Inr (take (fixZerosInTheEnd buf (length buf) 0) buf)"
    using pre(3,4)
    by (simp add: valueToString_double_def isfinite_def loop out l Let_def
          buf_def [symmetric] del: fixZerosInTheEnd.simps)
  also have "take (fixZerosInTheEnd buf (length buf) 0) buf = pre"
    unfolding fz by (simp add: buf_def)
  finally show ?thesis
    using pre by (simp add: out)
qed

lemma valueToString_negative:
  assumes "sint (snd (snprintf snprintf_fail (replicate 36 (CHR 0x00))
                        (printf_f radix (sint precision) (Finite s m e)))) < 0"
  shows "valueToString_double snprintf_fail g radix (Finite s m e) usf precision decimalPlaces
           = Inl LogicError"
  using snprintf_loop_negative [OF assms]
  by (simp add: valueToString_double_def isfinite_def)

text \<open>
  When the first call of \<open>snprintf\<close> does not deliver the text and returns 0, the
  buffer is left empty, \<open>".0"\<close> is appended and its zero removed: the result is \<open>"."\<close>.
\<close>

lemma valueToString_snprintf_zero:
  assumes "snprintf_fail 36 (printf_f radix (sint precision) (Finite s m e)) = Some (stored, 0)"
    and "precision \<noteq> 0"
  shows "valueToString_double snprintf_fail g radix (Finite s m e) usf precision decimalPlaces
           = Inr ''.''"
proof -
  define out where "out = printf_f radix (sint precision) (Finite s m e)"
  define buffer where "buffer = replicate 36 (CHR 0x00)"
  have lb: "length buffer = 36" by (simp add: buffer_def)
  define written where "written = take 36 stored @ drop (length stored) buffer"
  have sn: "snprintf snprintf_fail buffer out = (written, 0)"
    using assms(1) by (simp add: snprintf_def lb out_def written_def)
  have lw: "length written = 36"
    using lb by (auto simp: written_def)
  have "snprintf_loop snprintf_fail out buffer = Inr []"
    by (simp add: snprintf_loop.simps [of snprintf_fail out buffer] sn Let_def JSON_ASSERT_def
          resize_def lw)
  then show ?thesis
    using assms(2)
    by (simp add: valueToString_double_def isfinite_def out_def buffer_def fixNumericLocale_def)
qed

lemma length_printf_f:
  assumes "0 < prec"
  shows "nat prec + 2 \<le> length (printf_f radix prec (Finite s m e))"
proof -
  have "digits_of (fixed_scaled (nat prec) m e div 10 ^ nat prec) \<noteq> []"
    using digits_of_digits by simp
  then have "1 \<le> length (digits_of (fixed_scaled (nat prec) m e div 10 ^ nat prec))"
    by (simp add: Suc_le_eq)
  moreover have "length (frac_digits (nat prec) (fixed_scaled (nat prec) m e mod 10 ^ nat prec))
      = nat prec"
    using frac_digits_digits by simp
  ultimately show ?thesis
    unfolding printf_f_Finite using assms by simp
qed


text \<open>
  Claim C6, as amended. For a finite double, in decimal-places mode, with the decimal
  point or the decimal comma as the radix character of the locale. When \<open>snprintf\<close>
  delivers the \<open>"%.*f"\<close> text (its length is at most \<open>INT_MAX\<close> and the library does not
  fail) and the precision is not zero, the result is that text (sign and integral
  digits, the decimal point, the fraction digits) with the trailing zeros of the
  fraction removed, except that the first digit after the decimal point always stays;
  so it contains a decimal point. When \<open>snprintf\<close> delivers the text and the precision is
  zero, the result is the \<open>"%.0f"\<close> text itself: the appended \<open>".0"\<close> is removed again,
  and the result has no decimal point and no exponent. When the first call of
  \<open>snprintf\<close> returns a negative value, as it does for a text longer than \<open>INT_MAX\<close>
  where the library keeps to POSIX, \<open>valueToString\<close> raises a logic error.
\<close>

theorem valueToString_decimal_places:
  assumes "isfinite d" and "radix = CHR ''.'' \<or> radix = CHR '',''"
  shows "(int (length (printf_f radix (sint precision) d)) \<le> INT_MAX
          \<and> (\<forall>n. snprintf_fail n (printf_f radix (sint precision) d) = None) \<longrightarrow>
            (precision \<noteq> 0 \<longrightarrow>
               (\<exists>pre f0 rest.
                  printf_f (CHR ''.'') (sint precision) d = pre @ CHR ''.'' # f0 # rest
                  \<and> pre \<noteq> [] \<and> CHR ''.'' \<notin> set pre \<and> list_all is_digit (f0 # rest)
                  \<and> valueToString_double snprintf_fail g radix d usf precision decimalPlaces
                      = Inr (pre @ CHR ''.'' # f0 # strip_zeros rest)))
            \<and> (precision = 0 \<longrightarrow>
                 valueToString_double snprintf_fail g radix d usf precision decimalPlaces
                   = Inr (printf_f radix 0 d)
                 \<and> CHR ''.'' \<notin> set (printf_f radix 0 d)
                 \<and> CHR ''e'' \<notin> set (printf_f radix 0 d)))
       \<and> (sint (snd (snprintf snprintf_fail (replicate 36 (CHR 0x00))
                       (printf_f radix (sint precision) d))) < 0 \<longrightarrow>
            valueToString_double snprintf_fail g radix d usf precision decimalPlaces
              = Inl LogicError)"
proof (cases d)
  case (Finite s m e)
  show ?thesis
    unfolding Finite
  proof (intro conjI impI)
    assume h: "int (length (printf_f radix (sint precision) (Finite s m e))) \<le> INT_MAX
      \<and> (\<forall>n. snprintf_fail n (printf_f radix (sint precision) (Finite s m e)) = None)"
      and p: "precision \<noteq> 0"
    show "\<exists>pre f0 rest.
        printf_f (CHR ''.'') (sint precision) (Finite s m e) = pre @ CHR ''.'' # f0 # rest
        \<and> pre \<noteq> [] \<and> CHR ''.'' \<notin> set pre \<and> list_all is_digit (f0 # rest)
        \<and> valueToString_double snprintf_fail g radix (Finite s m e) usf precision decimalPlaces
            = Inr (pre @ CHR ''.'' # f0 # strip_zeros rest)"
      using h by (intro valueToString_places [OF assms(2) p]) simp_all
  next
    assume h: "int (length (printf_f radix (sint precision) (Finite s m e))) \<le> INT_MAX
      \<and> (\<forall>n. snprintf_fail n (printf_f radix (sint precision) (Finite s m e)) = None)"
      and p: "precision = 0"
    have np: "valueToString_double snprintf_fail g radix (Finite s m e) usf 0 decimalPlaces
           = Inr (printf_f radix 0 (Finite s m e))
         \<and> CHR ''.'' \<notin> set (printf_f radix 0 (Finite s m e))
         \<and> CHR ''e'' \<notin> set (printf_f radix 0 (Finite s m e))"
      using h unfolding p by (intro valueToString_no_places [OF assms(2)]) simp_all
    show "valueToString_double snprintf_fail g radix (Finite s m e) usf precision decimalPlaces
           = Inr (printf_f radix 0 (Finite s m e))"
      "CHR ''.'' \<notin> set (printf_f radix 0 (Finite s m e))"
      "CHR ''e'' \<notin> set (printf_f radix 0 (Finite s m e))"
      using np unfolding p by simp_all
  next
    assume "sint (snd (snprintf snprintf_fail (replicate 36 (CHR 0x00))
                       (printf_f radix (sint precision) (Finite s m e)))) < 0"
    then show "valueToString_double snprintf_fail g radix (Finite s m e) usf precision
        decimalPlaces = Inl LogicError"
      by (rule valueToString_negative)
  qed
qed (use assms(1) in \<open>simp_all add: isfinite_def\<close>)

lemma digit_char_5: "digit_char 5 = CHR ''5''"
  by code_simp

lemma printf_f_five: "printf_f radix 0 (Finite False 5 0) = ''5''"
  by (simp add: printf_f_Finite fixed_scaled_def digits_of.simps [of 5] digit_char_5)

text \<open>
  Claim C6 as stated fails at precision 0: \<open>valueToString(5.0, false, 0, decimalPlaces)\<close>
  is \<open>"5"\<close>, which contains neither a decimal point nor an exponent, also where
  \<open>snprintf\<close> delivers every text. (The \<open>"%.*g"\<close> conversion plays no part in
  decimal-places mode; in closed statements the \<open>"%.*f"\<close> conversion stands in for the
  parameter.)
\<close>

theorem valueToString_no_point_at_precision_0:
  "valueToString_double always_delivers (printf_f (CHR ''.'')) (CHR ''.'') (Finite False 5 0)
       False 0 decimalPlaces
     = Inr ''5''
   \<and> CHR ''.'' \<notin> set ''5'' \<and> CHR ''e'' \<notin> set ''5''"
  using valueToString_no_places
    [of "CHR ''.''" False 5 0 always_delivers "printf_f (CHR ''.'')" False]
  by (simp add: printf_f_five always_delivers_def INT_MAX_def)

lemma digit_char_0: "digit_char 0 = CHR ''0''"
  by code_simp

lemma digit_char_2: "digit_char 2 = CHR ''2''"
  by code_simp

lemma frac_digits_3: "frac_digits 3 x =
  [digit_char (x div 10 div 10 mod 10), digit_char (x div 10 mod 10), digit_char (x mod 10)]"
  by (simp add: numeral_3_eq_3)

lemma printf_f_two:
  "printf_f radix 3 (Finite False 2 0) = [CHR ''2'', radix, CHR ''0'', CHR ''0'', CHR ''0'']"
  by (simp add: printf_f_def fixed_scaled_def digits_of.simps [of 2] frac_digits_3
        digit_char_0 digit_char_2)

theorem valueToString_decimal_places_witness:
  "valueToString_double always_delivers (printf_f (CHR ''.'')) (CHR '','') (Finite False 2 0)
       False 3 decimalPlaces
     = Inr ''2.0''
   \<and> valueToString_double always_delivers (printf_f (CHR ''.'')) (CHR '','') (Finite False 5 0)
       False 0 decimalPlaces
     = Inr ''5''
   \<and> valueToString_double always_delivers (printf_f (CHR ''.'')) (CHR ''.'') (Finite False 2 0)
       False 2147483646 decimalPlaces
     = Inl LogicError"
proof (intro conjI)
  have fin: "isfinite (Finite False 2 0)" "isfinite (Finite False 5 0)"
    by (simp_all add: isfinite_def)
  have rad: "CHR '','' = CHR ''.'' \<or> CHR '','' = CHR '',''"
    "CHR ''.'' = CHR ''.'' \<or> CHR ''.'' = CHR '',''"
    by simp_all
  have three: "sint (3 :: uint32_t) = 3" and big: "sint (2147483646 :: uint32_t) = 2147483646"
    by simp_all
  have fits2:
    "int (length (printf_f (CHR '','') (sint (3 :: uint32_t)) (Finite False 2 0))) \<le> INT_MAX
     \<and> (\<forall>n. always_delivers n (printf_f (CHR '','') (sint (3 :: uint32_t)) (Finite False 2 0))
            = None)"
    unfolding three by (simp add: printf_f_two INT_MAX_def always_delivers_def)
  from valueToString_decimal_places
    [OF fin(1) rad(1), of 3 always_delivers "printf_f (CHR ''.'')" False] fits2
  obtain pre f0 rest where h:
    "printf_f (CHR ''.'') (sint (3 :: uint32_t)) (Finite False 2 0) = pre @ CHR ''.'' # f0 # rest"
    "CHR ''.'' \<notin> set pre"
    "valueToString_double always_delivers (printf_f (CHR ''.'')) (CHR '','') (Finite False 2 0)
       False 3 decimalPlaces
       = Inr (pre @ CHR ''.'' # f0 # strip_zeros rest)"
    by auto
  have eq: "''2'' @ CHR ''.'' # ''000'' = pre @ CHR ''.'' # f0 # rest"
    using h(1) by (simp add: printf_f_two)
  have nd: "CHR ''.'' \<notin> set ''2''" "CHR ''.'' \<notin> set ''000''" by simp_all
  have "''2'' = pre \<and> ''000'' = f0 # rest"
    by (rule iffD1 [OF append_Cons_eq_iff [OF nd] eq])
  then have "pre = ''2''" "f0 = CHR ''0''" "rest = ''00''" by auto
  then show "valueToString_double always_delivers (printf_f (CHR ''.'')) (CHR '','')
       (Finite False 2 0) False 3 decimalPlaces = Inr ''2.0''"
    using h(3) by (simp add: strip_zeros_def)
  have fits5:
    "int (length (printf_f (CHR '','') (sint (0 :: uint32_t)) (Finite False 5 0))) \<le> INT_MAX
     \<and> (\<forall>n. always_delivers n (printf_f (CHR '','') (sint (0 :: uint32_t)) (Finite False 5 0))
            = None)"
    by (simp add: printf_f_five INT_MAX_def always_delivers_def)
  show "valueToString_double always_delivers (printf_f (CHR ''.'')) (CHR '','')
       (Finite False 5 0) False 0 decimalPlaces = Inr ''5''"
    using valueToString_decimal_places
      [OF fin(2) rad(1), of 0 always_delivers "printf_f (CHR ''.'')" False] fits5
    by (simp add: printf_f_five)
  have long: "INT_MAX < int (length (printf_f (CHR ''.'') 2147483646 (Finite False 2 0)))"
    using length_printf_f [of 2147483646 "CHR ''.''" False 2 0]
    by (simp add: INT_MAX_def)
  have neg: "sint (snd (snprintf always_delivers (replicate 36 (CHR 0x00))
      (printf_f (CHR ''.'') (sint (2147483646 :: uint32_t)) (Finite False 2 0)))) < 0"
    unfolding big using long by (simp add: snprintf_def always_delivers_def)
  show "valueToString_double always_delivers (printf_f (CHR ''.'')) (CHR ''.'')
       (Finite False 2 0) False 2147483646 decimalPlaces = Inl LogicError"
    using valueToString_decimal_places
      [OF fin(1) rad(2), of 2147483646 always_delivers "printf_f (CHR ''.'')" False] neg
    by blast
qed


end
